theory Spec2Isabelle
  imports Main "HOL-Library.AList" "HOL-Library.Sublist"
begin

section \<open>Strings\<close>

text \<open>
  A Python \<open>str\<close> is a sequence of Unicode code points; it is modelled as a list of
  integers, one per code point, so that \<open>length\<close> is Python's \<open>len\<close>.
  ASCII literals are written through \<open>ustr\<close>; the Chinese labels of the source are
  written as their code points.
\<close>

type_synonym ustring = "int list"

definition ustr :: "string \<Rightarrow> ustring" where
  "ustr s = map of_char s"

text \<open>
  The characters for which \<open>str.isspace\<close> holds; \<open>str.strip\<close> and the
  regular-expression class \<open>\s\<close> (on \<open>str\<close> patterns) use the same set.
\<close>

definition is_space :: "int \<Rightarrow> bool" where
  "is_space c = ((9 \<le> c \<and> c \<le> 13) \<or> (28 \<le> c \<and> c \<le> 32) \<or> c = 133 \<or> c = 160
     \<or> c = 5760 \<or> (8192 \<le> c \<and> c \<le> 8202) \<or> c = 8232 \<or> c = 8233 \<or> c = 8239
     \<or> c = 8287 \<or> c = 12288)"

definition non_space :: "int \<Rightarrow> bool" where
  "non_space c = (\<not> is_space c)"

definition lstrip_chars :: "(int \<Rightarrow> bool) \<Rightarrow> ustring \<Rightarrow> ustring" where
  "lstrip_chars P s = dropWhile P s"

definition rstrip_chars :: "(int \<Rightarrow> bool) \<Rightarrow> ustring \<Rightarrow> ustring" where
  "rstrip_chars P s = rev (dropWhile P (rev s))"

definition strip_chars :: "(int \<Rightarrow> bool) \<Rightarrow> ustring \<Rightarrow> ustring" where
  "strip_chars P s = rstrip_chars P (lstrip_chars P s)"

text \<open>\<open>s.strip()\<close> and \<open>s.rstrip()\<close> without argument remove white space.\<close>

definition strip :: "ustring \<Rightarrow> ustring" where
  "strip s = strip_chars is_space s"

definition rstrip :: "ustring \<Rightarrow> ustring" where
  "rstrip s = rstrip_chars is_space s"

text \<open>\<open>p in s\<close> for strings: \<open>p\<close> occurs as a contiguous substring of \<open>s\<close>.\<close>

fun contains :: "ustring \<Rightarrow> ustring \<Rightarrow> bool" where
  "contains p [] = (p = [])"
| "contains p (c # cs) = (prefix p (c # cs) \<or> contains p cs)"

text \<open>\<open>str(n)\<close> for a non-negative integer: its decimal digits.\<close>

fun str_nat :: "nat \<Rightarrow> ustring" where
  "str_nat n = (if n < 10 then [48 + int n] else str_nat (n div 10) @ [48 + int (n mod 10)])"

declare str_nat.simps [simp del]

section \<open>File names and target paths\<close>

text \<open>
  \<open>sanitize_filename\<close>, step by step as in the source:
  \<^enum> \<open>re.sub(r'[\\/:*?"<>|]', "_", name)\<close>: each forbidden character becomes \<open>_\<close>;
  \<^enum> \<open>re.sub(r"\s+", " ", name).strip()\<close>: each maximal run of white space becomes
    one space, then white space is removed at both ends;
  \<^enum> \<open>name.strip(". ")\<close>: dots and spaces are removed at both ends;
  \<^enum> a name longer than \<open>max_len\<close> is cut to \<open>max_len\<close> code points and
    right-stripped.
\<close>

definition forbidden_char :: "int \<Rightarrow> bool" where
  "forbidden_char c = (c = 92 \<or> c = 47 \<or> c = 58 \<or> c = 42 \<or> c = 63 \<or> c = 34
     \<or> c = 60 \<or> c = 62 \<or> c = 124)"

definition replace_forbidden :: "ustring \<Rightarrow> ustring" where
  "replace_forbidden s = map (\<lambda>c. if forbidden_char c then 95 else c) s"

function collapse_ws :: "ustring \<Rightarrow> ustring" where
  "collapse_ws [] = []"
| "collapse_ws (c # cs) =
     (if is_space c then 32 # collapse_ws (dropWhile is_space cs) else c # collapse_ws cs)"
  by pat_completeness auto
termination
  by (relation "measure length") (auto simp: length_dropWhile_le le_imp_less_Suc)

definition dot_or_space :: "int \<Rightarrow> bool" where
  "dot_or_space c = (c = 46 \<or> c = 32)"

definition sanitize_filename :: "ustring \<Rightarrow> nat \<Rightarrow> ustring" where
  "sanitize_filename name max_len =
     (let n1 = replace_forbidden name;
          n2 = strip (collapse_ws n1);
          n3 = strip_chars dot_or_space n2
      in if length n3 > max_len then rstrip (take max_len n3) else n3)"

text \<open>\<open>os.path.join(a, b)\<close> on a POSIX system, for two components.\<close>

definition path_join :: "ustring \<Rightarrow> ustring \<Rightarrow> ustring" where
  "path_join a b =
     (if prefix [47] b then b
      else if a = [] \<or> suffix [47] a then a @ b
      else a @ [47] @ b)"

text \<open>
  \<open>target_path\<close>: the file name is \<open>sanitize_filename(f"{unit}_{date}_{title}.md")\<close>
  with the default \<open>max_len = 180\<close>.
\<close>

definition target_path :: "ustring \<Rightarrow> ustring \<Rightarrow> ustring \<Rightarrow> ustring \<Rightarrow> ustring" where
  "target_path out_dir unit_v date_v title_v =
     path_join out_dir
       (sanitize_filename (unit_v @ [95] @ date_v @ [95] @ title_v @ ustr ''.md'') 180)"

section \<open>Collaborators outside the repository\<close>

text \<open>
  The program reaches the network and the markup parser through library calls. They are
  parameters of the model:
  \<^item> \<open>fetch\<close>: what \<open>fetch_html(session, url)\<close> returns for a URL, \<open>None\<close> when it
    raises after its retries (the site is a fixed mapping from URLs to responses);
  \<^item> \<open>soup_anchors\<close>: every \<open>a\<close> element of the parsed markup in document order, as the
    pair of \<open>a.get_text(" ", strip=True)\<close> and \<open>a.get("href")\<close>;
  \<^item> \<open>soup_lines\<close>: \<open>soup.get_text("\n", strip=True).split("\n")\<close>;
  \<^item> \<open>urljoin\<close>: \<open>urllib.parse.urljoin\<close>;
  \<^item> \<open>set_query_param\<close>: the source's function of that name, which is built from
    \<open>urlparse\<close>, \<open>parse_qs\<close>, \<open>urlencode\<close> and \<open>urlunparse\<close>;
  \<^item> \<open>write_outcome\<close>: how the file system answers \<open>atomic_write\<close> for a path: the
    write succeeds; \<open>open\<close> of the temporary file raises; \<open>f.write\<close> raises after
    part of the content reached the temporary file; or \<open>os.replace\<close> raises.
\<close>

datatype write_result = WriteOk | OpenFails | WriteFails ustring | ReplaceFails

record env =
  fetch :: "ustring \<Rightarrow> ustring option"
  soup_anchors :: "ustring \<Rightarrow> (ustring \<times> ustring option) list"
  soup_lines :: "ustring \<Rightarrow> ustring list"
  urljoin :: "ustring \<Rightarrow> ustring \<Rightarrow> ustring"
  set_query_param :: "ustring \<Rightarrow> ustring \<Rightarrow> ustring \<Rightarrow> ustring"
  write_outcome :: "ustring \<Rightarrow> write_result"

definition BASE_URL :: ustring where
  "BASE_URL = ustr ''https://www.motc.gov.tw''"

section \<open>Listing extractor\<close>

record NewsItem =
  url :: ustring
  date :: ustring
  unit :: ustring
  title :: ustring

text \<open>The labels \<open>publish date:\<close> and \<open>publish unit:\<close>, each ending in the full-width colon.\<close>

definition LABEL_DATE :: ustring where
  "LABEL_DATE = [30332, 24067, 26085, 26399, 65306]"

definition LABEL_UNIT :: ustring where
  "LABEL_UNIT = [30332, 24067, 21934, 20301, 65306]"

definition is_digit :: "int \<Rightarrow> bool" where
  "is_digit c = (48 \<le> c \<and> c \<le> 57)"

text \<open>A full match of \<open>[0-9]{3}-[0-9]{2}-[0-9]{2}\<close>.\<close>

definition date_pattern :: "ustring \<Rightarrow> bool" where
  "date_pattern d = (length d = 9 \<and> is_digit (d ! 0) \<and> is_digit (d ! 1) \<and> is_digit (d ! 2)
     \<and> d ! 3 = 45 \<and> is_digit (d ! 4) \<and> is_digit (d ! 5) \<and> d ! 6 = 45
     \<and> is_digit (d ! 7) \<and> is_digit (d ! 8))"

text \<open>
  \<open>re.search(LABEL_DATE \s*([0-9]{3}-[0-9]{2}-[0-9]{2}), text)\<close>: the leftmost position
  where the label, any white space and a date follow each other; group 1 is the date.
  The greedy \<open>\s*\<close> takes the whole run of white space: giving a character back would
  leave a white-space character where a digit is required.
\<close>

definition match_date_at :: "ustring \<Rightarrow> ustring option" where
  "match_date_at s =
     (if prefix LABEL_DATE s
      then (let r = dropWhile is_space (drop (length LABEL_DATE) s)
            in if date_pattern (take 9 r) then Some (take 9 r) else None)
      else None)"

fun search_date :: "ustring \<Rightarrow> ustring option" where
  "search_date [] = None"
| "search_date (c # cs) =
     (case match_date_at (c # cs) of Some d \<Rightarrow> Some d | None \<Rightarrow> search_date cs)"

text \<open>
  \<open>LABEL_UNIT \s*([^\s]+)\<close> at the start of \<open>s\<close>: the label, the whole run of white
  space, then the longest non-empty run of other characters (group 1). The result is
  the token and what follows it.
\<close>

definition match_unit_at :: "ustring \<Rightarrow> (ustring \<times> ustring) option" where
  "match_unit_at s =
     (if prefix LABEL_UNIT s
      then (let r = dropWhile is_space (drop (length LABEL_UNIT) s);
                tok = takeWhile non_space r
            in if tok = [] then None else Some (tok, dropWhile non_space r))
      else None)"

fun search_unit :: "ustring \<Rightarrow> ustring option" where
  "search_unit [] = None"
| "search_unit (c # cs) =
     (case match_unit_at (c # cs) of Some m \<Rightarrow> Some (fst m) | None \<Rightarrow> search_unit cs)"

text \<open>
  \<open>re.sub(r"^.*?LABEL_UNIT \s*[^\s]+\s*", "", text)\<close>: the pattern is anchored at the
  start of the text, so at most one match is replaced. The lazy \<open>.*?\<close> grows one
  character at a time and never over a newline (code point 10). The result is \<open>Some\<close>
  of what is left after the match, \<open>None\<close> when nothing matches (the text is kept).
\<close>

fun match_title_prefix :: "ustring \<Rightarrow> ustring option" where
  "match_title_prefix [] = None"
| "match_title_prefix (c # cs) =
     (case match_unit_at (c # cs) of
        Some m \<Rightarrow> Some (dropWhile is_space (snd m))
      | None \<Rightarrow> if c = 10 then None else match_title_prefix cs)"

definition sub_title_prefix :: "ustring \<Rightarrow> ustring" where
  "sub_title_prefix text = (case match_title_prefix text of Some r \<Rightarrow> r | None \<Rightarrow> text)"

text \<open>
  The selector
  \<open>a[href*="/ch/app/news_list/view"][href*="module=news"][href*="serno="][href*="id=14"]\<close>:
  the element has an \<open>href\<close> attribute that contains each of the four substrings.
\<close>

definition selected :: "ustring \<times> ustring option \<Rightarrow> bool" where
  "selected a =
     (case snd a of
        None \<Rightarrow> False
      | Some h \<Rightarrow> contains (ustr ''/ch/app/news_list/view'') h \<and> contains (ustr ''module=news'') h
          \<and> contains (ustr ''serno='') h \<and> contains (ustr ''id=14'') h)"

text \<open>The body of the loop over the anchors: \<open>None\<close> stands for \<open>continue\<close>.\<close>

definition parse_anchor :: "env \<Rightarrow> ustring \<times> ustring option \<Rightarrow> NewsItem option" where
  "parse_anchor E a =
     (let text = fst a
      in if contains LABEL_DATE text \<and> contains LABEL_UNIT text
         then (case search_date text of
                 None \<Rightarrow> None
               | Some d \<Rightarrow>
                  (case search_unit text of
                     None \<Rightarrow> None
                   | Some u \<Rightarrow>
                      (let t = strip (sub_title_prefix text)
                       in if t = [] then None
                          else Some \<lparr>url = urljoin E BASE_URL
                                         (strip (case snd a of None \<Rightarrow> [] | Some h \<Rightarrow> h)),
                                      date = d, unit = u, title = t\<rparr>)))
         else None)"

fun collect_items :: "env \<Rightarrow> (ustring \<times> ustring option) list \<Rightarrow> NewsItem list" where
  "collect_items E [] = []"
| "collect_items E (a # as) =
     (case parse_anchor E a of
        None \<Rightarrow> collect_items E as
      | Some it \<Rightarrow> it # collect_items E as)"

text \<open>
  The candidates of a page: \<open>items\<close> of the source after its first loop.
\<close>

definition candidates :: "env \<Rightarrow> ustring \<Rightarrow> NewsItem list" where
  "candidates E html = collect_items E (filter selected (soup_anchors E html))"

text \<open>
  \<open>uniq[it.url] = it\<close> for each item, then \<open>list(uniq.values())\<close>. A Python dict keeps
  its keys in insertion order and an assignment to an existing key keeps the key's place:
  this is \<open>AList.update\<close> on an association list.
\<close>

definition uniq_by_url :: "NewsItem list \<Rightarrow> NewsItem list" where
  "uniq_by_url items = map snd (fold (\<lambda>it uniq. AList.update (url it) it uniq) items [])"

definition parse_list_page :: "env \<Rightarrow> ustring \<Rightarrow> NewsItem list" where
  "parse_list_page E html = uniq_by_url (candidates E html)"

section \<open>Article extractor\<close>

text \<open>The banner label that starts the article region.\<close>

definition BANNER :: ustring where
  "BANNER = [20132, 36890, 26032, 32862, 31295]"

text \<open>
  \<open>extract_main_text_block\<close>, from the lines of \<open>soup.get_text("\n", strip=True)\<close>:
  the lines are stripped, the empty ones dropped, and the block starts at the last line
  equal to the banner (at line 0 when there is none).
\<close>

definition extract_main_text_block :: "ustring list \<Rightarrow> ustring list" where
  "extract_main_text_block raw =
     (let lines = filter (\<lambda>ln. ln \<noteq> []) (map strip raw);
          idxs = filter (\<lambda>i. lines ! i = BANNER) [0..<length lines];
          start = (if idxs = [] then 0 else last idxs)
      in drop start lines)"

text \<open>The field labels: news category, business category, category, publish date, publish unit.\<close>

definition L_NEWS_TYPE :: ustring where
  "L_NEWS_TYPE = [26032, 32862, 39006, 21029]"

definition L_BIZ_TYPE :: ustring where
  "L_BIZ_TYPE = [26989, 21209, 20998, 39006]"

definition L_TYPE :: ustring where
  "L_TYPE = [20998, 39006]"

definition L_DATE :: ustring where
  "L_DATE = [30332, 24067, 26085, 26399]"

definition L_UNIT :: ustring where
  "L_UNIT = [30332, 24067, 21934, 20301]"

definition FIELD_LABELS :: "ustring list" where
  "FIELD_LABELS = [L_NEWS_TYPE, L_BIZ_TYPE, L_TYPE, L_DATE, L_UNIT]"

text \<open>\<open>ln.split(SEP, 1)[-1]\<close> with the full-width colon (code point 65306) as separator:
  what follows the first separator, the whole line when it has none.\<close>

fun after_sep :: "ustring \<Rightarrow> ustring option" where
  "after_sep [] = None"
| "after_sep (c # cs) = (if c = 65306 then Some cs else after_sep cs)"

definition split_last :: "ustring \<Rightarrow> ustring" where
  "split_last ln = (case after_sep ln of None \<Rightarrow> ln | Some r \<Rightarrow> r)"

fun find_value_in :: "ustring \<Rightarrow> ustring list \<Rightarrow> ustring option" where
  "find_value_in p [] = None"
| "find_value_in p (ln # lns) =
     (if prefix p ln then Some (strip (split_last ln)) else find_value_in p lns)"

definition find_value :: "ustring list \<Rightarrow> ustring \<Rightarrow> ustring option" where
  "find_value block p = find_value_in p (take 80 block)"

text \<open>Python's \<open>a or b\<close> on optional strings: \<open>None\<close> and the empty string are falsy.\<close>

definition or_else :: "ustring option \<Rightarrow> ustring option \<Rightarrow> ustring option" where
  "or_else a b = (case a of None \<Rightarrow> b | Some v \<Rightarrow> if v = [] then b else Some v)"

text \<open>
  The title: the outer loop finds the first of the first 120 lines that starts with
  \<open>LABEL_UNIT\<close> (and breaks there); the inner loop runs \<open>j\<close> over
  \<open>range(i + 1, min(i + 10, len(block)))\<close>, skips a candidate that is empty, or that
  contains the separator and starts with a field label, and takes the first other one.
\<close>

fun find_unit_line :: "ustring list \<Rightarrow> nat \<Rightarrow> nat option" where
  "find_unit_line [] i = None"
| "find_unit_line (ln # lns) i =
     (if prefix LABEL_UNIT ln then Some i else find_unit_line lns (Suc i))"

definition skipped_candidate :: "ustring \<Rightarrow> bool" where
  "skipped_candidate cand =
     (cand = [] \<or> (65306 \<in> set cand \<and> list_ex (\<lambda>p. prefix p cand) FIELD_LABELS))"

fun scan_title :: "ustring list \<Rightarrow> nat list \<Rightarrow> (nat \<times> ustring) option" where
  "scan_title block [] = None"
| "scan_title block (j # js) =
     (let cand = strip (block ! j)
      in if skipped_candidate cand then scan_title block js else Some (j, cand))"

definition find_title_line :: "ustring list \<Rightarrow> (nat \<times> ustring) option" where
  "find_title_line block =
     (case find_unit_line (take 120 block) 0 of
        None \<Rightarrow> None
      | Some i \<Rightarrow> scan_title block [Suc i..<min (i + 10) (length block)])"

definition find_title :: "ustring list \<Rightarrow> ustring option" where
  "find_title block = map_option snd (find_title_line block)"

text \<open>\<open>block.index(title)\<close>, called only when \<open>title in block\<close>: the first index.\<close>

fun list_index :: "'a list \<Rightarrow> 'a \<Rightarrow> nat" where
  "list_index [] x = 0"
| "list_index (y # ys) x = (if y = x then 0 else Suc (list_index ys x))"

text \<open>The body before the stop markers are applied: \<open>body_lines\<close> of the source.\<close>

definition candidate_body :: "ustring list \<Rightarrow> ustring option \<Rightarrow> ustring list" where
  "candidate_body block title_v =
     (case title_v of
        None \<Rightarrow> drop 10 block
      | Some t \<Rightarrow> if t \<noteq> [] \<and> t \<in> set block then drop (list_index block t + 1) block
                  else drop 10 block)"

definition STOP_MARKERS :: "ustring set" where
  "STOP_MARKERS = {[22238, 19978, 19968, 38913], [22238, 38913, 39318],
     [26356, 26032, 26085, 26399], [28687, 35261, 20154, 27425],
     [40670, 38321, 27425, 25976], [20998, 20139]}"

fun clean_body :: "ustring list \<Rightarrow> ustring list" where
  "clean_body [] = []"
| "clean_body (ln # lns) = (if ln \<in> STOP_MARKERS then [] else ln # clean_body lns)"

record Article =
  art_url :: ustring
  news_type :: "ustring option"
  biz_type :: "ustring option"
  art_date :: "ustring option"
  art_unit :: "ustring option"
  art_title :: "ustring option"
  body_lines :: "ustring list"

definition parse_article_block :: "ustring list \<Rightarrow> ustring \<Rightarrow> Article" where
  "parse_article_block block u =
     \<lparr>art_url = u,
      news_type = find_value block L_NEWS_TYPE,
      biz_type = or_else (find_value block L_BIZ_TYPE) (find_value block L_TYPE),
      art_date = find_value block L_DATE,
      art_unit = find_value block L_UNIT,
      art_title = find_title block,
      body_lines = clean_body (candidate_body block (find_title block))\<rparr>"

definition parse_article_page :: "env \<Rightarrow> ustring \<Rightarrow> ustring \<Rightarrow> Article" where
  "parse_article_page E html u =
     parse_article_block (extract_main_text_block (soup_lines E html)) u"

section \<open>Document renderer and storage\<close>

definition or_str :: "ustring option \<Rightarrow> ustring \<Rightarrow> ustring" where
  "or_str a d = (case a of None \<Rightarrow> d | Some v \<Rightarrow> if v = [] then d else v)"

fun join_lines :: "ustring list \<Rightarrow> ustring" where
  "join_lines [] = []"
| "join_lines [l] = l"
| "join_lines (l # ls) = l @ [10] @ join_lines ls"

definition to_markdown :: "Article \<Rightarrow> ustring" where
  "to_markdown article =
     join_lines
       ([ustr ''# '' @ or_str (art_title article) ([40, 26410, 35299, 26512, 21040, 27161, 38988, 41]),
         [],
         ustr ''- '' @ L_DATE @ [65306] @ or_str (art_date article) [],
         ustr ''- '' @ L_UNIT @ [65306] @ or_str (art_unit article) []]
        @ (case or_else (news_type article) None of
             None \<Rightarrow> [] | Some v \<Rightarrow> [ustr ''- '' @ L_NEWS_TYPE @ [65306] @ v])
        @ (case or_else (biz_type article) None of
             None \<Rightarrow> [] | Some v \<Rightarrow> [ustr ''- '' @ L_BIZ_TYPE @ [65306] @ v])
        @ [ustr ''- '' @ [21407, 25991, 36899, 32080, 65306] @ art_url article,
           [],
           ustr ''---'',
           []]
        @ body_lines article
        @ [[]])"

text \<open>
  The storage is a map from paths to contents. \<open>atomic_write\<close> writes \<open>path + ".tmp"\<close>
  and renames it to \<open>path\<close>: afterwards \<open>path\<close> holds the content and the temporary
  name is gone. The flag of the result is \<open>False\<close> when \<open>atomic_write\<close> raises: nothing
  changes when \<open>open\<close> fails; the temporary file stays behind, with what was written,
  when \<open>f.write\<close> or \<open>os.replace\<close> fails.
\<close>

type_synonym storage = "ustring \<rightharpoonup> ustring"

definition atomic_write :: "env \<Rightarrow> ustring \<Rightarrow> ustring \<Rightarrow> storage \<Rightarrow> bool \<times> storage" where
  "atomic_write E path content fs =
     (let tmp = path @ ustr ''.tmp''
      in case write_outcome E path of
           OpenFails \<Rightarrow> (False, fs)
         | WriteFails part \<Rightarrow> (False, fs(tmp \<mapsto> part))
         | ReplaceFails \<Rightarrow> (False, fs(tmp \<mapsto> content))
         | WriteOk \<Rightarrow> (True, (fs(tmp := None))(path \<mapsto> content)))"

section \<open>Fetching\<close>

text \<open>
  Both \<open>raise RuntimeError\<close> sites of the source are kept apart: \<open>FetchError\<close> is raised
  by \<open>fetch_html\<close> (with the URL), \<open>DiscoveryError\<close> by \<open>discover_pagination_mode\<close>.
\<close>

datatype error = FetchError ustring | DiscoveryError

text \<open>
  Every call of \<open>fetch_html\<close> is recorded: the log holds the requested URLs, oldest
  first. The waiting between requests (\<open>time.sleep\<close>) is not modelled.
\<close>

definition fetch_html :: "env \<Rightarrow> ustring \<Rightarrow> ustring list \<Rightarrow> (error + ustring) \<times> ustring list" where
  "fetch_html E u log =
     ((case fetch E u of None \<Rightarrow> Inl (FetchError u) | Some h \<Rightarrow> Inr h), log @ [u])"

section \<open>Pagination discoverer\<close>

text \<open>
  The scheme is the tuple \<open>(mode, param_name, step, offset_one_based)\<close> of the source;
  the two mode strings \<open>"page"\<close> and \<open>"offset"\<close> are the constructors of \<open>mode\<close>.
\<close>

datatype mode = PageMode | OffsetMode

type_synonym scheme = "mode \<times> ustring \<times> nat \<times> bool"

definition page_params :: "ustring list" where
  "page_params = [ustr ''page'', ustr ''pageIndex'', ustr ''pageNo'', ustr ''pageNum'',
     ustr ''p'', ustr ''pg'']"

definition offset_params :: "ustring list" where
  "offset_params = [ustr ''start'', ustr ''offset'', ustr ''from'', ustr ''begin'']"

text \<open>
  One probe: request the base URL with parameter \<open>p\<close> set to \<open>v\<close>, parse the page, and
  test \<open>items and urls != first_urls\<close>.
\<close>

definition probe ::
  "env \<Rightarrow> ustring \<Rightarrow> ustring set \<Rightarrow> ustring \<Rightarrow> ustring \<Rightarrow> ustring list
     \<Rightarrow> (error + bool) \<times> ustring list" where
  "probe E base_url first_urls p v log =
     (case fetch_html E (set_query_param E base_url p v) log of
        (Inl e, log') \<Rightarrow> (Inl e, log')
      | (Inr html, log') \<Rightarrow>
          (let items = parse_list_page E html;
               urls = set (map url items)
           in (Inr (items \<noteq> [] \<and> urls \<noteq> first_urls), log')))"

text \<open>The loop over the page-index parameter names.\<close>

fun probe_page_params ::
  "env \<Rightarrow> ustring \<Rightarrow> ustring set \<Rightarrow> ustring list \<Rightarrow> ustring list
     \<Rightarrow> (error + ustring option) \<times> ustring list" where
  "probe_page_params E base_url first_urls [] log = (Inr None, log)"
| "probe_page_params E base_url first_urls (p # ps) log =
     (case probe E base_url first_urls p (ustr ''2'') log of
        (Inl e, log') \<Rightarrow> (Inl e, log')
      | (Inr True, log') \<Rightarrow> (Inr (Some p), log')
      | (Inr False, log') \<Rightarrow> probe_page_params E base_url first_urls ps log')"

text \<open>The inner loop \<open>for one_based in (False, True)\<close> and the loop over the offset names.\<close>

fun probe_offset_bases ::
  "env \<Rightarrow> ustring \<Rightarrow> ustring set \<Rightarrow> nat \<Rightarrow> ustring \<Rightarrow> bool list \<Rightarrow> ustring list
     \<Rightarrow> (error + bool option) \<times> ustring list" where
  "probe_offset_bases E base_url first_urls page_size p [] log = (Inr None, log)"
| "probe_offset_bases E base_url first_urls page_size p (one_based # rest) log =
     (let val = (if one_based then page_size + 1 else page_size)
      in case probe E base_url first_urls p (str_nat val) log of
           (Inl e, log') \<Rightarrow> (Inl e, log')
         | (Inr True, log') \<Rightarrow> (Inr (Some one_based), log')
         | (Inr False, log') \<Rightarrow>
             probe_offset_bases E base_url first_urls page_size p rest log')"

fun probe_offset_params ::
  "env \<Rightarrow> ustring \<Rightarrow> ustring set \<Rightarrow> nat \<Rightarrow> ustring list \<Rightarrow> ustring list
     \<Rightarrow> (error + (ustring \<times> bool) option) \<times> ustring list" where
  "probe_offset_params E base_url first_urls page_size [] log = (Inr None, log)"
| "probe_offset_params E base_url first_urls page_size (p # ps) log =
     (case probe_offset_bases E base_url first_urls page_size p [False, True] log of
        (Inl e, log') \<Rightarrow> (Inl e, log')
      | (Inr (Some one_based), log') \<Rightarrow> (Inr (Some (p, one_based)), log')
      | (Inr None, log') \<Rightarrow> probe_offset_params E base_url first_urls page_size ps log')"

definition discover_pagination_mode ::
  "env \<Rightarrow> ustring \<Rightarrow> NewsItem list \<Rightarrow> ustring list \<Rightarrow> (error + scheme) \<times> ustring list" where
  "discover_pagination_mode E base_url first_page_items log =
     (if first_page_items = [] then (Inl DiscoveryError, log)
      else
        (let first_urls = set (map url first_page_items);
             page_size = max 1 (length first_page_items)
         in case probe_page_params E base_url first_urls page_params log of
              (Inl e, log') \<Rightarrow> (Inl e, log')
            | (Inr (Some p), log') \<Rightarrow> (Inr (PageMode, p, 0, False), log')
            | (Inr None, log') \<Rightarrow>
                (case probe_offset_params E base_url first_urls page_size offset_params log' of
                   (Inl e, log'') \<Rightarrow> (Inl e, log'')
                 | (Inr (Some (p, one_based)), log'') \<Rightarrow>
                     (Inr (OffsetMode, p, page_size, one_based), log'')
                 | (Inr None, log'') \<Rightarrow> (Inl DiscoveryError, log''))))"

section \<open>Page sequence generator\<close>

text \<open>
  The source's \<open>iter_list_pages\<close> is a generator. Its suspended states are: not started;
  suspended at the first \<open>yield\<close> (holding \<open>items1\<close>); suspended at the \<open>yield\<close> of the
  loop (holding the scheme and \<open>page_no\<close>); finished. The function \<open>iter_list_pages\<close>
  below is one \<open>next\<close> on it: it runs the generator from a suspended state to the
  following \<open>yield\<close>, to its return or to an exception.
\<close>

datatype gen_state =
  GenStart
| GenFirst "NewsItem list"
| GenLoop scheme nat
| GenDone

datatype gen_out =
  Yield nat ustring "NewsItem list"
| StopIteration
| Raise error

text \<open>The URL the loop requests for \<open>page_no\<close>.\<close>

definition page_url :: "env \<Rightarrow> ustring \<Rightarrow> scheme \<Rightarrow> nat \<Rightarrow> ustring" where
  "page_url E base_url sch page_no =
     (case sch of (m, param, step, offset_one_based) \<Rightarrow>
        (case m of
           PageMode \<Rightarrow> set_query_param E base_url param (str_nat page_no)
         | OffsetMode \<Rightarrow>
             (let offset = (page_no - 1) * step;
                  offset = (if offset_one_based then offset + 1 else offset)
              in set_query_param E base_url param (str_nat offset))))"

text \<open>
  One round of the \<open>while True\<close> loop, entered with the value \<open>page_no\<close> had at the
  previous \<open>yield\<close>.
\<close>

definition iter_list_pages_loop ::
  "env \<Rightarrow> ustring \<Rightarrow> int \<Rightarrow> scheme \<Rightarrow> nat \<Rightarrow> ustring list
     \<Rightarrow> gen_out \<times> gen_state \<times> ustring list" where
  "iter_list_pages_loop E base_url max_pages sch page_no0 log =
     (let page_no = page_no0 + 1
      in if max_pages \<noteq> 0 \<and> int page_no > max_pages then (StopIteration, GenDone, log)
         else
           (let u = page_url E base_url sch page_no
            in case fetch_html E u log of
                 (Inl e, log') \<Rightarrow> (Raise e, GenDone, log')
               | (Inr html, log') \<Rightarrow>
                   (let items = parse_list_page E html
                    in if items = [] then (StopIteration, GenDone, log')
                       else (Yield page_no u items, GenLoop sch page_no, log'))))"

fun iter_list_pages ::
  "env \<Rightarrow> ustring \<Rightarrow> int \<Rightarrow> gen_state \<Rightarrow> ustring list \<Rightarrow> gen_out \<times> gen_state \<times> ustring list" where
  "iter_list_pages E base_url max_pages GenStart log =
     (case fetch_html E base_url log of
        (Inl e, log') \<Rightarrow> (Raise e, GenDone, log')
      | (Inr html1, log') \<Rightarrow>
          (let items1 = parse_list_page E html1
           in (Yield 0 base_url items1, GenFirst items1, log')))"
| "iter_list_pages E base_url max_pages (GenFirst items1) log =
     (if max_pages = 1 then (StopIteration, GenDone, log)
      else
        (case discover_pagination_mode E base_url items1 log of
           (Inl e, log') \<Rightarrow> (Raise e, GenDone, log')
         | (Inr sch, log') \<Rightarrow> iter_list_pages_loop E base_url max_pages sch 0 log'))"
| "iter_list_pages E base_url max_pages (GenLoop sch page_no) log =
     iter_list_pages_loop E base_url max_pages sch page_no log"
| "iter_list_pages E base_url max_pages GenDone log = (StopIteration, GenDone, log)"

text \<open>
  Consuming the generator to its end, as \<open>list(iter_list_pages(...))\<close> would: the pages
  yielded, how it ended (\<open>None\<close> for a normal end) and the log. The generator need not
  end, so the consumer runs on fuel: one unit per \<open>next\<close>, \<open>None\<close> when it runs out.
\<close>

fun iter_list_pages_all ::
  "nat \<Rightarrow> env \<Rightarrow> ustring \<Rightarrow> int \<Rightarrow> gen_state \<Rightarrow> ustring list
     \<Rightarrow> ((nat \<times> ustring \<times> NewsItem list) list \<times> error option \<times> ustring list) option" where
  "iter_list_pages_all 0 E base_url max_pages st log = None"
| "iter_list_pages_all (Suc k) E base_url max_pages st log =
     (case iter_list_pages E base_url max_pages st log of
        (Yield n u items, st', log') \<Rightarrow>
          (case iter_list_pages_all k E base_url max_pages st' log' of
             None \<Rightarrow> None
           | Some (ys, e, log'') \<Rightarrow> Some ((n, u, items) # ys, e, log''))
      | (StopIteration, st', log') \<Rightarrow> Some ([], None, log')
      | (Raise e, st', log') \<Rightarrow> Some ([], Some e, log'))"

section \<open>Incremental crawl controller\<close>

record run_state =
  fetch_log :: "ustring list"
  files :: storage
  total_saved :: nat
  total_seen :: nat

text \<open>
  The \<open>try\<close> block for one item. A failing fetch or write is caught: the item is
  skipped and the run goes on, with whatever the failed write left in the storage.
\<close>

definition download_item :: "env \<Rightarrow> ustring \<Rightarrow> NewsItem \<Rightarrow> run_state \<Rightarrow> run_state" where
  "download_item E out_dir item s =
     (case fetch_html E (url item) (fetch_log s) of
        (Inl e, log') \<Rightarrow> s\<lparr>fetch_log := log'\<rparr>
      | (Inr article_html, log') \<Rightarrow>
          (let article = parse_article_page E article_html (url item);
               date_v = or_str (art_date article) (date item);
               unit_v = or_str (art_unit article) (unit item);
               title_v = or_str (art_title article) (title item);
               out_path = target_path out_dir unit_v date_v title_v;
               article = article\<lparr>art_date := Some date_v, art_unit := Some unit_v,
                           art_title := Some title_v\<rparr>;
               md = to_markdown article
           in case atomic_write E out_path md (files s) of
                (True, fs') \<Rightarrow>
                  s\<lparr>fetch_log := log', files := fs', total_saved := total_saved s + 1\<rparr>
              | (False, fs') \<Rightarrow> s\<lparr>fetch_log := log', files := fs'\<rparr>))"

text \<open>
  The loop over the items of one page. The flag is \<open>True\<close> when the loop left through
  the \<open>return\<close> of the existence check; \<open>os.path.exists(out_path)\<close> holds when the
  storage has an entry for the path.
\<close>

fun process_items :: "env \<Rightarrow> ustring \<Rightarrow> NewsItem list \<Rightarrow> run_state \<Rightarrow> bool \<times> run_state" where
  "process_items E out_dir [] s = (False, s)"
| "process_items E out_dir (item # rest) s =
     (let s1 = s\<lparr>total_seen := total_seen s + 1\<rparr>;
          out_path = target_path out_dir (unit item) (date item) (title item)
      in if files s1 out_path \<noteq> None then (True, s1)
         else process_items E out_dir rest (download_item E out_dir item s1))"

datatype outcome = Stopped | Completed | Crashed error

text \<open>
  The \<open>for\<close> loop of \<open>main\<close> over the generator, one unit of fuel per page pulled.
\<close>

fun main_loop ::
  "nat \<Rightarrow> env \<Rightarrow> ustring \<Rightarrow> ustring \<Rightarrow> int \<Rightarrow> gen_state \<Rightarrow> run_state
     \<Rightarrow> (outcome \<times> run_state) option" where
  "main_loop 0 E list_url out_dir max_pages g s = None"
| "main_loop (Suc k) E list_url out_dir max_pages g s =
     (case iter_list_pages E list_url max_pages g (fetch_log s) of
        (Raise e, g', log') \<Rightarrow> Some (Crashed e, s\<lparr>fetch_log := log'\<rparr>)
      | (StopIteration, g', log') \<Rightarrow> Some (Completed, s\<lparr>fetch_log := log'\<rparr>)
      | (Yield page_no u items, g', log') \<Rightarrow>
          (case process_items E out_dir items (s\<lparr>fetch_log := log'\<rparr>) of
             (True, s') \<Rightarrow> Some (Stopped, s')
           | (False, s') \<Rightarrow> main_loop k E list_url out_dir max_pages g' s'))"

definition main ::
  "nat \<Rightarrow> env \<Rightarrow> ustring \<Rightarrow> ustring \<Rightarrow> int \<Rightarrow> storage \<Rightarrow> (outcome \<times> run_state) option" where
  "main fuel E list_url out_dir max_pages fs =
     main_loop fuel E list_url out_dir max_pages GenStart
       \<lparr>fetch_log = [], files = fs, total_saved = 0, total_seen = 0\<rparr>"

section \<open>Notions used to state the properties\<close>

text \<open>
  The elements of a list in the order of their first occurrence, each once.
  (\<open>remdups\<close> keeps the last occurrence of each element.)
\<close>

definition first_occurrence_order :: "'a list \<Rightarrow> 'a list" where
  "first_occurrence_order xs = rev (remdups (rev xs))"

text \<open>
  The probes of the discoverer in the order the source makes them, each as
  \<open>(mode, parameter name, value, one_based)\<close>: the six page-index names with value
  \<open>"2"\<close>, then each of the four offset names with \<open>page_size\<close> and with
  \<open>page_size + 1\<close>.
\<close>

type_synonym probe_candidate = "mode \<times> ustring \<times> ustring \<times> bool"

definition probe_candidates :: "nat \<Rightarrow> probe_candidate list" where
  "probe_candidates page_size =
     map (\<lambda>p. (PageMode, p, ustr ''2'', False)) page_params
     @ concat (map (\<lambda>p. [(OffsetMode, p, str_nat page_size, False),
                           (OffsetMode, p, str_nat (page_size + 1), True)]) offset_params)"

definition probe_request :: "env \<Rightarrow> ustring \<Rightarrow> probe_candidate \<Rightarrow> ustring" where
  "probe_request E base_url c =
     (case c of (m, p, v, one_based) \<Rightarrow> set_query_param E base_url p v)"

text \<open>
  What the site answers to a probe: \<open>None\<close> when the fetch fails, otherwise whether the
  page parses to a non-empty record list whose URL set differs from the first page's.
\<close>

definition probe_outcome :: "env \<Rightarrow> ustring \<Rightarrow> ustring set \<Rightarrow> probe_candidate \<Rightarrow> bool option" where
  "probe_outcome E base_url first_urls c =
     (case fetch E (probe_request E base_url c) of
        None \<Rightarrow> None
      | Some html \<Rightarrow>
          Some (parse_list_page E html \<noteq> []
                \<and> set (map url (parse_list_page E html)) \<noteq> first_urls))"

definition scheme_of :: "nat \<Rightarrow> probe_candidate \<Rightarrow> scheme" where
  "scheme_of page_size c =
     (case c of (m, p, v, one_based) \<Rightarrow>
        (case m of PageMode \<Rightarrow> (PageMode, p, 0, False)
                 | OffsetMode \<Rightarrow> (OffsetMode, p, page_size, one_based)))"

text \<open>Trying a list of probes in order until the first that succeeds or fails to fetch.\<close>

fun first_success ::
  "env \<Rightarrow> ustring \<Rightarrow> ustring set \<Rightarrow> nat \<Rightarrow> probe_candidate list \<Rightarrow> ustring list
     \<Rightarrow> (error + scheme) \<times> ustring list" where
  "first_success E base_url first_urls page_size [] log = (Inl DiscoveryError, log)"
| "first_success E base_url first_urls page_size (c # cs) log =
     (case probe_outcome E base_url first_urls c of
        None \<Rightarrow> (Inl (FetchError (probe_request E base_url c)), log @ [probe_request E base_url c])
      | Some True \<Rightarrow> (Inr (scheme_of page_size c), log @ [probe_request E base_url c])
      | Some False \<Rightarrow>
          first_success E base_url first_urls page_size cs (log @ [probe_request E base_url c]))"

text \<open>
  How \<open>discover_pagination_mode\<close> goes on after one of its loops: an exception is passed
  on, a hit becomes the scheme, and without a hit the next loop runs.
\<close>

definition or_continue ::
  "(error + 'a option) \<times> ustring list \<Rightarrow> ('a \<Rightarrow> scheme)
     \<Rightarrow> (ustring list \<Rightarrow> (error + scheme) \<times> ustring list) \<Rightarrow> (error + scheme) \<times> ustring list" where
  "or_continue r mk k =
     (case r of
        (Inl e, l) \<Rightarrow> (Inl e, l)
      | (Inr (Some x), l) \<Rightarrow> (Inr (mk x), l)
      | (Inr None, l) \<Rightarrow> k l)"

text \<open>
  The title as the specification words it: after the first of the first 120 lines that
  starts with the publish-unit label, the first of the next 10 lines that is non-empty
  and starts with none of the five field labels; and the body it describes, which
  starts right after the title line, or at line 10 when there is no title.
\<close>

definition spec_title_line :: "ustring list \<Rightarrow> (nat \<times> ustring) option" where
  "spec_title_line block =
     (case find_unit_line (take 120 block) 0 of
        None \<Rightarrow> None
      | Some i \<Rightarrow>
          List.find (\<lambda>jc. snd jc \<noteq> [] \<and> \<not> list_ex (\<lambda>p. prefix p (snd jc)) FIELD_LABELS)
            (map (\<lambda>j. (j, block ! j)) [Suc i..<min (i + 11) (length block)]))"

definition spec_body :: "ustring list \<Rightarrow> ustring list" where
  "spec_body block =
     (case spec_title_line block of None \<Rightarrow> drop 10 block | Some jc \<Rightarrow> drop (Suc (fst jc)) block)"

section \<open>A small site for concrete runs\<close>

text \<open>
  Markup is opaque to the model, so the pages of the example site are named by short
  tokens and the parser's view of each token is given by \<open>demo_anchors\<close> (listing
  pages) and \<open>demo_lines\<close> (article pages). \<open>urljoin\<close> and \<open>set_query_param\<close> are the
  ones of the library on these inputs: an \<open>href\<close> that starts with a slash is appended
  to the base, and a parameter is added to a URL that has no query.
\<close>

definition demo_href :: "string \<Rightarrow> ustring" where
  "demo_href n = ustr ''/ch/app/news_list/view?module=news&id=14&serno='' @ ustr n"

definition demo_text :: "string \<Rightarrow> string \<Rightarrow> string \<Rightarrow> ustring" where
  "demo_text d u t = LABEL_DATE @ ustr d @ ustr '' '' @ LABEL_UNIT @ ustr u @ ustr '' '' @ ustr t"

definition demo_anchors :: "ustring \<Rightarrow> (ustring \<times> ustring option) list" where
  "demo_anchors html =
     (if html = ustr ''P1'' then
        [(demo_text ''113-05-01'' ''U1'' ''T1'', Some (demo_href ''1'')),
         (demo_text ''113-04-30'' ''U2'' ''T2'', Some (demo_href ''2'')),
         (demo_text ''113-05-02'' ''U1'' ''T1 updated'', Some (demo_href ''1''))]
      else if html = ustr ''P2'' then
        [(demo_text ''113-04-29'' ''U3'' ''T3'', Some (demo_href ''3''))]
      else if html = ustr ''P3'' then
        [(demo_text ''113-04-28'' ''U4'' ''a/b'', Some (demo_href ''4''))]
      else [])"

definition demo_lines :: "ustring \<Rightarrow> ustring list" where
  "demo_lines html =
     (if html = ustr ''ART''
      then [ustr ''menu'', BANNER, LABEL_DATE @ ustr ''113-05-01'', LABEL_UNIT @ ustr ''U1'',
            ustr ''T1'', ustr ''first line'', ustr ''second line'', [20998, 20139],
            ustr ''footer'']
      else [])"

definition demo_env :: "(ustring \<times> ustring) list \<Rightarrow> env" where
  "demo_env site =
     \<lparr>fetch = map_of site, soup_anchors = demo_anchors, soup_lines = demo_lines,
      urljoin = (\<lambda>b h. b @ h),
      set_query_param = (\<lambda>u k v. u @ ustr ''?'' @ k @ ustr ''='' @ v),
      write_outcome = (\<lambda>p. WriteOk)\<rparr>"

definition demo_list :: ustring where
  "demo_list = ustr ''https://www.motc.gov.tw/list''"

text \<open>A site with two listing pages, served under the parameter \<open>page\<close>.\<close>

definition demo_site :: "(ustring \<times> ustring) list" where
  "demo_site =
     [(demo_list, ustr ''P1''),
      (demo_list @ ustr ''?page=1'', ustr ''P1''),
      (demo_list @ ustr ''?page=2'', ustr ''P2''),
      (demo_list @ ustr ''?page=3'', ustr ''EMPTY''),
      (BASE_URL @ demo_href ''1'', ustr ''ART'')]"


text \<open>A site whose listing shows one record with the title \<open>a/b\<close>.\<close>

definition demo_site_slash :: "(ustring \<times> ustring) list" where
  "demo_site_slash = [(demo_list, ustr ''P3'')]"


text \<open>
  Three working blocks of article text: one whose first line without a field label is
  the tenth after the unit line, one whose first candidate starts with a field label but
  has no separator, and one in which the text of the title also stands on an earlier
  line.
\<close>

definition demo_block_late :: "ustring list" where
  "demo_block_late =
     [LABEL_UNIT @ ustr ''U1''] @ replicate 9 (L_NEWS_TYPE @ [65306] @ ustr ''x'') @ [ustr ''Title'']"

definition demo_block_label :: "ustring list" where
  "demo_block_label = [LABEL_UNIT @ ustr ''U1'', L_TYPE @ ustr ''X'', ustr ''real'']"

definition demo_block_repeat :: "ustring list" where
  "demo_block_repeat = [ustr ''T'', LABEL_UNIT @ ustr ''U1'', ustr ''T'', ustr ''body'']"

text \<open>
  A site that ignores every page-index parameter and serves its second page under
  \<open>start=2\<close>, and a site that ignores every parameter the discoverer tries.
\<close>

definition demo_site_offset :: "(ustring \<times> ustring) list" where
  "demo_site_offset =
     [(demo_list, ustr ''P1''), (demo_list @ ustr ''?start=2'', ustr ''P2'')]
     @ map (\<lambda>p. (demo_list @ ustr ''?'' @ p @ ustr ''=2'', ustr ''P1'')) page_params"




section \<open>Properties of the listing extractor\<close>

subsection \<open>What the regular expressions capture\<close>

lemma match_date_at_pattern: "match_date_at s = Some d \<Longrightarrow> date_pattern d"
  by (auto simp: match_date_at_def Let_def split: if_splits)

lemma search_date_pattern: "search_date s = Some d \<Longrightarrow> date_pattern d"
  by (induction s) (auto split: option.splits dest: match_date_at_pattern)

lemma takeWhile_non_space: "list_all non_space (takeWhile non_space r)"
  by (induction r) auto

lemma match_unit_at_token:
  "match_unit_at s = Some m \<Longrightarrow> fst m \<noteq> [] \<and> list_all non_space (fst m)"
  by (auto simp: match_unit_at_def Let_def takeWhile_non_space split: if_splits)

lemma search_unit_token: "search_unit s = Some u \<Longrightarrow> u \<noteq> [] \<and> list_all non_space u"
  by (induction s) (auto split: option.splits dest: match_unit_at_token)

lemma parse_anchor_wellformed:
  assumes "parse_anchor E a = Some it"
  shows "unit it \<noteq> [] \<and> list_all non_space (unit it) \<and> title it \<noteq> []
    \<and> date_pattern (date it)
    \<and> url it = urljoin E BASE_URL (strip (case snd a of None \<Rightarrow> [] | Some h \<Rightarrow> h))"
  using assms
  by (auto simp: parse_anchor_def Let_def split: if_splits option.splits
      dest: search_date_pattern search_unit_token)

lemma collect_items_sound:
  "it \<in> set (collect_items E as) \<Longrightarrow> \<exists>a \<in> set as. parse_anchor E a = Some it"
  by (induction as) (auto split: option.splits)

subsection \<open>The dictionary keyed by URL\<close>

lemma remdups_snoc: "remdups (ys @ [x]) = filter (\<lambda>y. y \<noteq> x) (remdups ys) @ [x]"
  by (induction ys) auto

lemma first_occurrence_order_Nil: "first_occurrence_order [] = []"
  by (simp add: first_occurrence_order_def)

lemma first_occurrence_order_Cons:
  "first_occurrence_order (x # xs) = x # filter (\<lambda>y. y \<noteq> x) (first_occurrence_order xs)"
  by (simp add: first_occurrence_order_def remdups_snoc rev_filter)

lemma distinct_first_occurrence_order: "distinct (first_occurrence_order xs)"
  by (simp add: first_occurrence_order_def)

lemma fold_update_keys:
  "map fst (fold (\<lambda>it uniq. AList.update (url it) it uniq) items al) =
     map fst al @ filter (\<lambda>k. k \<notin> set (map fst al)) (first_occurrence_order (map url items))"
proof (induction items arbitrary: al)
  case Nil
  then show ?case by (simp add: first_occurrence_order_Nil)
next
  case (Cons it items)
  let ?rest = "first_occurrence_order (map url items)"
  show ?case
  proof (cases "url it \<in> set (map fst al)")
    case True
    have "filter (\<lambda>k. k \<notin> set (map fst al)) (filter (\<lambda>y. y \<noteq> url it) ?rest)
        = filter (\<lambda>k. k \<notin> set (map fst al)) ?rest"
      using True by (auto intro: filter_cong)
    with True show ?thesis
      by (simp add: Cons.IH update_keys first_occurrence_order_Cons del: set_map)
  next
    case False
    have "filter (\<lambda>k. k \<notin> set (map fst al @ [url it])) ?rest
        = filter (\<lambda>k. k \<notin> set (map fst al)) (filter (\<lambda>y. y \<noteq> url it) ?rest)"
      by (auto intro: filter_cong)
    with False show ?thesis
      by (simp add: Cons.IH update_keys first_occurrence_order_Cons del: set_map)
  qed
qed

lemma fold_update_map_of:
  "map_of (fold (\<lambda>it uniq. AList.update (url it) it uniq) items al) k =
     (if filter (\<lambda>c. url c = k) items = [] then map_of al k
      else Some (last (filter (\<lambda>c. url c = k) items)))"
  by (induction items arbitrary: al) (auto simp: update_conv')

lemma keyed_update:
  "list_all (\<lambda>p. fst p = url (snd p)) al
    \<Longrightarrow> list_all (\<lambda>p. fst p = url (snd p)) (AList.update (url v) v al)"
  by (induction al) auto

lemma keyed_fold:
  "list_all (\<lambda>p. fst p = url (snd p)) al
    \<Longrightarrow> list_all (\<lambda>p. fst p = url (snd p))
          (fold (\<lambda>it uniq. AList.update (url it) it uniq) items al)"
  by (induction items arbitrary: al) (auto simp: keyed_update)

lemma keyed_fold_Nil:
  "list_all (\<lambda>p. fst p = url (snd p)) (fold (\<lambda>it uniq. AList.update (url it) it uniq) items [])"
  by (rule keyed_fold) simp

lemma keyed_map_url:
  "list_all (\<lambda>p. fst p = url (snd p)) al \<Longrightarrow> map (url \<circ> snd) al = map fst al"
  by (induction al) auto

lemma distinct_fold_update:
  "distinct (map fst al)
    \<Longrightarrow> distinct (map fst (fold (\<lambda>it uniq. AList.update (url it) it uniq) items al))"
  by (induction items arbitrary: al) (auto simp: distinct_update)

lemma uniq_by_url_urls: "map url (uniq_by_url items) = first_occurrence_order (map url items)"
  using fold_update_keys [of items "[]"]
  by (simp add: uniq_by_url_def keyed_map_url [OF keyed_fold_Nil])

lemma uniq_by_url_distinct: "distinct (map url (uniq_by_url items))"
  by (simp add: uniq_by_url_urls distinct_first_occurrence_order)

lemma uniq_by_url_last:
  assumes "r \<in> set (uniq_by_url items)"
  shows "r = last (filter (\<lambda>c. url c = url r) items) \<and> r \<in> set items"
proof -
  let ?al = "fold (\<lambda>it uniq. AList.update (url it) it uniq) items []"
  from assms obtain k where k: "(k, r) \<in> set ?al"
    by (auto simp: uniq_by_url_def)
  with keyed_fold_Nil [of items] have "k = url r"
    by (auto simp: list_all_iff)
  moreover have "distinct (map fst ?al)"
    by (rule distinct_fold_update) simp
  ultimately have "map_of ?al (url r) = Some r"
    using k by simp
  then have ne: "filter (\<lambda>c. url c = url r) items \<noteq> []"
    and l: "r = last (filter (\<lambda>c. url c = url r) items)"
    by (auto simp: fold_update_map_of split: if_splits)
  from ne have "last (filter (\<lambda>c. url c = url r) items) \<in> set (filter (\<lambda>c. url c = url r) items)"
    by (rule last_in_set)
  with l show ?thesis by auto
qed

text \<open>
  Claim C5. Every record the listing extractor emits has a non-empty unit without white
  space, a non-empty title and a date of the form three digits, hyphen, two digits,
  hyphen, two digits; its URL is non-empty as well, given that \<open>urljoin\<close> with the
  site's base returns a non-empty string (the library's \<open>urljoin\<close> does, the base being
  non-empty).
\<close>

theorem listing_records_wellformed:
  assumes "\<And>h. urljoin E BASE_URL h \<noteq> []"
    and "it \<in> set (parse_list_page E html)"
  shows "url it \<noteq> [] \<and> unit it \<noteq> [] \<and> list_all non_space (unit it) \<and> title it \<noteq> []
    \<and> date_pattern (date it)"
proof -
  from assms(2) have "it \<in> set (candidates E html)"
    using uniq_by_url_last [of it "candidates E html"] by (simp add: parse_list_page_def)
  then obtain a where "parse_anchor E a = Some it"
    unfolding candidates_def by (blast dest: collect_items_sound)
  from parse_anchor_wellformed [OF this] assms(1) show ?thesis by simp
qed

theorem listing_records_wellformed_witness:
  "url (hd (parse_list_page (demo_env demo_site) (ustr ''P1''))) \<noteq> []
   \<and> unit (hd (parse_list_page (demo_env demo_site) (ustr ''P1''))) \<noteq> []
   \<and> list_all non_space (unit (hd (parse_list_page (demo_env demo_site) (ustr ''P1''))))
   \<and> title (hd (parse_list_page (demo_env demo_site) (ustr ''P1''))) \<noteq> []
   \<and> date_pattern (date (hd (parse_list_page (demo_env demo_site) (ustr ''P1''))))"
proof -
  have h1: "\<And>h. urljoin (demo_env demo_site) BASE_URL h \<noteq> []"
    by (simp add: demo_env_def BASE_URL_def ustr_def)
  have "parse_list_page (demo_env demo_site) (ustr ''P1'') \<noteq> []"
    by code_simp
  then have h2: "hd (parse_list_page (demo_env demo_site) (ustr ''P1''))
      \<in> set (parse_list_page (demo_env demo_site) (ustr ''P1''))"
    by (rule hd_in_set)
  show ?thesis
    using listing_records_wellformed [OF h1 h2] .
qed

text \<open>
  Claim C6. The output of the listing extractor is unique by URL: no URL occurs twice,
  the URLs come in the order of their first occurrence among the candidates, and each
  record is the last candidate with its URL. In particular two candidates with the same
  URL give one record, the later one.
\<close>

theorem listing_unique_by_url:
  "distinct (map url (parse_list_page E html))
   \<and> map url (parse_list_page E html) = first_occurrence_order (map url (candidates E html))
   \<and> (\<forall>r \<in> set (parse_list_page E html).
         r = last (filter (\<lambda>c. url c = url r) (candidates E html)))
   \<and> (url c1 = url c2 \<longrightarrow> uniq_by_url [c1, c2] = [c2])"
proof -
  have "uniq_by_url [c1, c2] = [c2]" if "url c1 = url c2"
    using that by (simp add: uniq_by_url_def)
  then show ?thesis
    using uniq_by_url_last [of _ "candidates E html"]
    by (simp add: parse_list_page_def uniq_by_url_urls distinct_first_occurrence_order)
qed

theorem listing_unique_by_url_witness:
  "map title (candidates (demo_env demo_site) (ustr ''P1''))
     = [ustr ''T1'', ustr ''T2'', ustr ''T1 updated'']
   \<and> map url (candidates (demo_env demo_site) (ustr ''P1''))
     = [BASE_URL @ demo_href ''1'', BASE_URL @ demo_href ''2'', BASE_URL @ demo_href ''1'']
   \<and> distinct (map url (parse_list_page (demo_env demo_site) (ustr ''P1'')))
   \<and> map url (parse_list_page (demo_env demo_site) (ustr ''P1''))
     = [BASE_URL @ demo_href ''1'', BASE_URL @ demo_href ''2'']
   \<and> map title (parse_list_page (demo_env demo_site) (ustr ''P1''))
     = [ustr ''T1 updated'', ustr ''T2'']
   \<and> uniq_by_url [candidates (demo_env demo_site) (ustr ''P1'') ! 0,
                   candidates (demo_env demo_site) (ustr ''P1'') ! 2]
     = [candidates (demo_env demo_site) (ustr ''P1'') ! 2]"
proof -
  have t: "map title (candidates (demo_env demo_site) (ustr ''P1''))
      = [ustr ''T1'', ustr ''T2'', ustr ''T1 updated'']"
    by code_simp
  have u: "map url (candidates (demo_env demo_site) (ustr ''P1''))
      = [BASE_URL @ demo_href ''1'', BASE_URL @ demo_href ''2'', BASE_URL @ demo_href ''1'']"
    by code_simp
  have f: "first_occurrence_order
      [BASE_URL @ demo_href ''1'', BASE_URL @ demo_href ''2'', BASE_URL @ demo_href ''1'']
      = [BASE_URL @ demo_href ''1'', BASE_URL @ demo_href ''2'']"
    by code_simp
  have p: "map title (parse_list_page (demo_env demo_site) (ustr ''P1''))
      = [ustr ''T1 updated'', ustr ''T2'']"
    by code_simp
  have e: "url (candidates (demo_env demo_site) (ustr ''P1'') ! 0)
      = url (candidates (demo_env demo_site) (ustr ''P1'') ! 2)"
    by code_simp
  note T = listing_unique_by_url [of "demo_env demo_site" "ustr ''P1''"
      "candidates (demo_env demo_site) (ustr ''P1'') ! 0"
      "candidates (demo_env demo_site) (ustr ''P1'') ! 2"]
  have d: "distinct (map url (parse_list_page (demo_env demo_site) (ustr ''P1'')))"
    by (rule T [THEN conjunct1])
  have m: "map url (parse_list_page (demo_env demo_site) (ustr ''P1''))
      = [BASE_URL @ demo_href ''1'', BASE_URL @ demo_href ''2'']"
    unfolding T [THEN conjunct2, THEN conjunct1] u f ..
  have q: "uniq_by_url [candidates (demo_env demo_site) (ustr ''P1'') ! 0,
                        candidates (demo_env demo_site) (ustr ''P1'') ! 2]
      = [candidates (demo_env demo_site) (ustr ''P1'') ! 2]"
    by (rule T [THEN conjunct2, THEN conjunct2, THEN conjunct2, THEN mp, OF e])
  from t u d m p q show ?thesis
    by blast
qed


section \<open>Properties of the article extractor\<close>

lemma clean_body_takeWhile: "clean_body body = takeWhile (\<lambda>ln. ln \<notin> STOP_MARKERS) body"
  by (induction body) auto

lemma nth_range_take_drop: "map ((!) xs) [a..<min (a + n) (length xs)] = take n (drop a xs)"
proof (rule nth_equalityI)
  show "length (map ((!) xs) [a..<min (a + n) (length xs)]) = length (take n (drop a xs))"
    by auto
next
  fix i
  assume "i < length (map ((!) xs) [a..<min (a + n) (length xs)])"
  then have "i < n" and "a + i < length xs"
    by (auto simp: min_def split: if_splits)
  then show "map ((!) xs) [a..<min (a + n) (length xs)] ! i = take n (drop a xs) ! i"
    by simp
qed

lemma find_unit_line_None:
  "find_unit_line lns k = None \<longleftrightarrow> (\<forall>ln \<in> set lns. \<not> prefix LABEL_UNIT ln)"
  by (induction lns arbitrary: k) auto

lemma find_unit_line_Some:
  "find_unit_line lns k = Some i \<Longrightarrow>
     \<exists>d. i = k + d \<and> d < length lns \<and> prefix LABEL_UNIT (lns ! d)
       \<and> (\<forall>j < d. \<not> prefix LABEL_UNIT (lns ! j))"
proof (induction lns arbitrary: k)
  case Nil
  then show ?case by simp
next
  case (Cons ln lns)
  show ?case
  proof (cases "prefix LABEL_UNIT ln")
    case True
    with Cons.prems show ?thesis by simp
  next
    case False
    with Cons.prems have "find_unit_line lns (Suc k) = Some i" by simp
    from Cons.IH [OF this] obtain d where d: "i = Suc k + d" "d < length lns"
      "prefix LABEL_UNIT (lns ! d)" "\<forall>j < d. \<not> prefix LABEL_UNIT (lns ! j)"
      by blast
    have "\<forall>j < Suc d. \<not> prefix LABEL_UNIT ((ln # lns) ! j)"
      using False d(4) by (auto simp: nth_Cons split: nat.splits)
    with d show ?thesis
      by (intro exI [of _ "Suc d"]) simp
  qed
qed

lemma scan_title_find:
  "scan_title block js =
     List.find (\<lambda>jc. \<not> skipped_candidate (snd jc)) (map (\<lambda>j. (j, strip (block ! j))) js)"
  by (induction js) (auto simp: Let_def)

lemma find_map_snd:
  "map_option snd (List.find (\<lambda>jc. P (snd jc)) (map (\<lambda>j. (j, f j)) js)) = List.find P (map f js)"
  by (induction js) auto

lemma find_title_from_unit_line:
  assumes "find_unit_line (take 120 block) 0 = Some i"
  shows "find_title block =
     List.find (\<lambda>c. \<not> skipped_candidate c) (map strip (take 9 (drop (Suc i) block)))"
proof -
  have e: "i + 10 = Suc i + 9" by simp
  have m: "map (\<lambda>j. strip (block ! j)) [Suc i..<min (i + 10) (length block)]
      = map strip (take 9 (drop (Suc i) block))"
    unfolding e nth_range_take_drop [symmetric] by (simp add: comp_def)
  have "find_title block = map_option snd (scan_title block [Suc i..<min (i + 10) (length block)])"
    using assms by (simp add: find_title_def find_title_line_def)
  also have "\<dots> = List.find (\<lambda>c. \<not> skipped_candidate c)
      (map (\<lambda>j. strip (block ! j)) [Suc i..<min (i + 10) (length block)])"
    unfolding scan_title_find
    by (rule find_map_snd [of "\<lambda>c. \<not> skipped_candidate c" "\<lambda>j. strip (block ! j)"])
  finally show ?thesis
    by (simp only: m)
qed

lemma scan_title_Some:
  "scan_title block js = Some (j, t) \<Longrightarrow> j \<in> set js \<and> t = strip (block ! j) \<and> t \<noteq> []"
  by (induction js) (auto simp: Let_def skipped_candidate_def split: if_splits)

lemma list_index_first:
  "x \<in> set xs \<Longrightarrow>
     list_index xs x < length xs \<and> xs ! list_index xs x = x
     \<and> (\<forall>k < list_index xs x. xs ! k \<noteq> x)"
  by (induction xs) (auto simp: nth_Cons split: nat.splits)

lemma strip_chars_fixed:
  "lstrip_chars P (strip_chars P s) = strip_chars P s
   \<and> rstrip_chars P (strip_chars P s) = strip_chars P s"
proof -
  let ?t = "dropWhile P s"
  let ?r = "rev (dropWhile P (rev ?t))"
  have "rev (takeWhile P (rev ?t) @ dropWhile P (rev ?t)) = rev (rev ?t)"
    by (simp only: takeWhile_dropWhile_id)
  then have t: "?t = ?r @ rev (takeWhile P (rev ?t))"
    by (simp only: rev_append rev_rev_ident)
  have "?r = [] \<or> \<not> P (hd ?r)"
  proof (cases "?r = []")
    case True
    then show ?thesis by simp
  next
    case False
    then have "hd ?r = hd ?t"
      using t by (metis hd_append2)
    moreover from False t have "?t \<noteq> []" by (metis append_is_Nil_conv)
    then have "\<not> P (hd ?t)" by (rule hd_dropWhile)
    ultimately show ?thesis by simp
  qed
  then have "dropWhile P ?r = ?r"
    by (simp only: dropWhile_eq_self_iff)
  moreover have "rev (dropWhile P (rev ?r)) = ?r"
    by (simp add: dropWhile_idem)
  ultimately show ?thesis
    by (simp add: strip_chars_def lstrip_chars_def rstrip_chars_def)
qed

lemma strip_idem: "strip (strip s) = strip s"
  using strip_chars_fixed [of is_space s]
  by (simp add: strip_def) (simp add: strip_chars_def [of is_space "strip_chars is_space s"])

lemma extract_main_text_block_stripped:
  "ln \<in> set (extract_main_text_block raw) \<Longrightarrow> strip ln = ln \<and> ln \<noteq> []"
proof -
  assume "ln \<in> set (extract_main_text_block raw)"
  then have "ln \<in> set (filter (\<lambda>ln. ln \<noteq> []) (map strip raw))"
    by (auto simp: extract_main_text_block_def Let_def dest: in_set_dropD)
  then show ?thesis by (auto simp: strip_idem)
qed

lemma find_title_nonempty: "find_title block = Some t \<Longrightarrow> t \<noteq> []"
  by (auto simp: find_title_def find_title_line_def split: option.splits dest: scan_title_Some)

lemma find_title_in_extracted_block:
  assumes "find_title (extract_main_text_block raw) = Some t"
  shows "t \<in> set (extract_main_text_block raw)"
proof -
  let ?block = "extract_main_text_block raw"
  from assms obtain i j where "scan_title ?block [Suc i..<min (i + 10) (length ?block)] = Some (j, t)"
    by (auto simp: find_title_def find_title_line_def split: option.splits)
  then have j: "j < length ?block" and t: "t = strip (?block ! j)"
    by (auto dest: scan_title_Some)
  from j have "?block ! j \<in> set ?block" by simp
  with t show ?thesis
    by (simp add: extract_main_text_block_stripped)
qed

text \<open>
  Claim C7. The body lines of an extracted article are the lines of the candidate body
  before its first stop marker: no stop marker is among them; when the candidate body
  has a stop marker, they are exactly the lines before the first one; when it has none,
  they are the whole candidate body.
\<close>

theorem body_stops_at_first_marker:
  assumes "body = candidate_body (extract_main_text_block (soup_lines E html))
                    (find_title (extract_main_text_block (soup_lines E html)))"
  shows "body_lines (parse_article_page E html u) = takeWhile (\<lambda>ln. ln \<notin> STOP_MARKERS) body
    \<and> (\<forall>ln \<in> set (body_lines (parse_article_page E html u)). ln \<notin> STOP_MARKERS)
    \<and> (\<forall>pre m post. body = pre @ m # post \<and> m \<in> STOP_MARKERS
           \<and> (\<forall>ln \<in> set pre. ln \<notin> STOP_MARKERS)
         \<longrightarrow> body_lines (parse_article_page E html u) = pre)
    \<and> ((\<forall>ln \<in> set body. ln \<notin> STOP_MARKERS) \<longrightarrow> body_lines (parse_article_page E html u) = body)"
proof -
  have b: "body_lines (parse_article_page E html u) = takeWhile (\<lambda>ln. ln \<notin> STOP_MARKERS) body"
    by (simp add: assms parse_article_page_def parse_article_block_def clean_body_takeWhile)
  have "\<forall>ln \<in> set (takeWhile (\<lambda>ln. ln \<notin> STOP_MARKERS) body). ln \<notin> STOP_MARKERS"
    by (auto dest: set_takeWhileD)
  moreover have "takeWhile (\<lambda>ln. ln \<notin> STOP_MARKERS) body = pre"
    if "body = pre @ m # post" "m \<in> STOP_MARKERS" "\<forall>ln \<in> set pre. ln \<notin> STOP_MARKERS"
    for pre m post
    using that by (simp add: takeWhile_tail)
  moreover have "takeWhile (\<lambda>ln. ln \<notin> STOP_MARKERS) body = body"
    if "\<forall>ln \<in> set body. ln \<notin> STOP_MARKERS"
    using that by (simp add: takeWhile_eq_all_conv)
  ultimately show ?thesis
    unfolding b by blast
qed

theorem body_stops_at_first_marker_witness:
  "candidate_body (extract_main_text_block (soup_lines (demo_env demo_site) (ustr ''ART'')))
     (find_title (extract_main_text_block (soup_lines (demo_env demo_site) (ustr ''ART''))))
     = [ustr ''first line'', ustr ''second line''] @ [20998, 20139] # [ustr ''footer'']
   \<and> body_lines (parse_article_page (demo_env demo_site) (ustr ''ART'') (BASE_URL @ demo_href ''1''))
     = [ustr ''first line'', ustr ''second line'']"
proof -
  have c: "candidate_body (extract_main_text_block (soup_lines (demo_env demo_site) (ustr ''ART'')))
      (find_title (extract_main_text_block (soup_lines (demo_env demo_site) (ustr ''ART''))))
      = [ustr ''first line'', ustr ''second line''] @ [20998, 20139] # [ustr ''footer'']"
    by code_simp
  have m: "[20998, 20139] \<in> STOP_MARKERS"
    by (simp add: STOP_MARKERS_def)
  have p: "\<forall>ln \<in> set [ustr ''first line'', ustr ''second line'']. ln \<notin> STOP_MARKERS"
    by (simp add: STOP_MARKERS_def ustr_def)
  from body_stops_at_first_marker [OF c [symmetric],
      of "BASE_URL @ demo_href ''1''", THEN conjunct2, THEN conjunct2, THEN conjunct1,
      rule_format, of "[ustr ''first line'', ustr ''second line'']" "[20998, 20139]"
        "[ustr ''footer'']"] c m p
  show ?thesis
    by blast
qed

text \<open>
  Claim C8, as the specification states it, fails on the code: the inner loop covers
  nine lines after the unit line, not ten; a candidate that starts with a field label
  is skipped only if it also contains the separator; and the body starts after the
  first line that equals the title, which can lie before the title line.
\<close>

theorem title_and_body_counterexample:
  "find_title demo_block_late = None
   \<and> map_option snd (spec_title_line demo_block_late) = Some (ustr ''Title'')
   \<and> find_title demo_block_label = Some (L_TYPE @ ustr ''X'')
   \<and> map_option snd (spec_title_line demo_block_label) = Some (ustr ''real'')
   \<and> find_title demo_block_repeat = Some (ustr ''T'')
   \<and> spec_title_line demo_block_repeat = Some (2, ustr ''T'')
   \<and> candidate_body demo_block_repeat (find_title demo_block_repeat)
       = [LABEL_UNIT @ ustr ''U1'', ustr ''T'', ustr ''body'']
   \<and> spec_body demo_block_repeat = [ustr ''body'']"
  by code_simp

text \<open>
  Claim C8, amended to what the code does. The unit line is the first of the first 120
  lines of the block that starts with the publish-unit label (with its separator);
  without one the title is unset. With the unit line at \<open>i\<close>, the title is the first
  of the next nine lines that, stripped, is non-empty and is not a line that both
  contains the separator and starts with one of the five field labels. When a title is
  found it is a line of the block (in every block made by \<open>extract_main_text_block\<close>),
  and the body starts right after the first line equal to it: right after the title
  line, when no earlier line has the same text. Without a title the body starts at
  line 10.
\<close>

theorem title_and_body_heuristic:
  "(find_unit_line (take 120 block) 0 = None
      \<longleftrightarrow> (\<forall>ln \<in> set (take 120 block). \<not> prefix LABEL_UNIT ln))
   \<and> (find_unit_line (take 120 block) 0 = None \<longrightarrow> find_title block = None)
   \<and> (\<forall>i. find_unit_line (take 120 block) 0 = Some i \<longrightarrow>
         i < 120 \<and> i < length block \<and> prefix LABEL_UNIT (block ! i)
         \<and> (\<forall>k < i. \<not> prefix LABEL_UNIT (block ! k))
         \<and> find_title block
             = List.find (\<lambda>c. \<not> skipped_candidate c) (map strip (take 9 (drop (Suc i) block))))
   \<and> (\<forall>t. find_title block = Some t \<and> t \<in> set block \<longrightarrow>
         candidate_body block (find_title block) = drop (Suc (list_index block t)) block
         \<and> list_index block t < length block \<and> block ! list_index block t = t
         \<and> (\<forall>k < list_index block t. block ! k \<noteq> t))
   \<and> (\<forall>t. find_title block = Some t \<and> t \<notin> set block \<longrightarrow>
         candidate_body block (find_title block) = drop 10 block)
   \<and> (find_title block = None \<longrightarrow> candidate_body block (find_title block) = drop 10 block)
   \<and> (\<forall>raw t. block = extract_main_text_block raw \<and> find_title block = Some t
         \<longrightarrow> t \<in> set block)
   \<and> (\<forall>j t. find_title_line block = Some (j, t) \<and> block ! j = t \<and> (\<forall>k < j. block ! k \<noteq> t)
         \<longrightarrow> candidate_body block (find_title block) = drop (Suc j) block)"
proof -
  have unit_line: "i < 120 \<and> i < length block \<and> prefix LABEL_UNIT (block ! i)
      \<and> (\<forall>k < i. \<not> prefix LABEL_UNIT (block ! k))"
    if "find_unit_line (take 120 block) 0 = Some i" for i
    using find_unit_line_Some [OF that] by auto
  have c1: "find_unit_line (take 120 block) 0 = None
      \<longleftrightarrow> (\<forall>ln \<in> set (take 120 block). \<not> prefix LABEL_UNIT ln)"
    by (rule find_unit_line_None)
  have c2: "find_title block = None" if "find_unit_line (take 120 block) 0 = None"
    using that by (simp add: find_title_def find_title_line_def)
  have c3: "i < 120 \<and> i < length block \<and> prefix LABEL_UNIT (block ! i)
      \<and> (\<forall>k < i. \<not> prefix LABEL_UNIT (block ! k))
      \<and> find_title block
          = List.find (\<lambda>c. \<not> skipped_candidate c) (map strip (take 9 (drop (Suc i) block)))"
    if "find_unit_line (take 120 block) 0 = Some i" for i
    using unit_line [OF that] find_title_from_unit_line [OF that] by blast
  have c4: "candidate_body block (find_title block) = drop (Suc (list_index block t)) block
      \<and> list_index block t < length block \<and> block ! list_index block t = t
      \<and> (\<forall>k < list_index block t. block ! k \<noteq> t)"
    if "find_title block = Some t \<and> t \<in> set block" for t
    using that find_title_nonempty [of block t] list_index_first [of t block]
    by (simp add: candidate_body_def)
  have c5: "candidate_body block (find_title block) = drop 10 block"
    if "find_title block = Some t \<and> t \<notin> set block" for t
    using that by (simp add: candidate_body_def)
  have c6: "candidate_body block (find_title block) = drop 10 block"
    if "find_title block = None"
    using that by (simp add: candidate_body_def)
  have c7: "t \<in> set block"
    if "block = extract_main_text_block raw \<and> find_title block = Some t" for raw t
    using that find_title_in_extracted_block [of raw t] by blast
  have c8: "candidate_body block (find_title block) = drop (Suc j) block"
    if "find_title_line block = Some (j, t) \<and> block ! j = t \<and> (\<forall>k < j. block ! k \<noteq> t)" for j t
  proof -
    from that have ft: "find_title block = Some t"
      by (simp add: find_title_def)
    from that have "j < length block"
      by (auto simp: find_title_line_def split: option.splits dest: scan_title_Some)
    with that have mem: "t \<in> set block"
      by (metis nth_mem)
    from list_index_first [OF mem] that \<open>j < length block\<close> have "list_index block t = j"
      by (metis linorder_neqE_nat)
    with c4 [of t] ft mem show ?thesis
      by simp
  qed
  from c2 c3 c4 c5 c6 c7 c8 show ?thesis
    unfolding c1 by (intro conjI allI impI) blast+
qed

theorem title_and_body_heuristic_witness:
  "find_unit_line (take 120 (extract_main_text_block (demo_lines (ustr ''ART'')))) 0 = Some 2
   \<and> find_title (extract_main_text_block (demo_lines (ustr ''ART''))) = Some (ustr ''T1'')
   \<and> list_index (extract_main_text_block (demo_lines (ustr ''ART''))) (ustr ''T1'') = 3
   \<and> candidate_body (extract_main_text_block (demo_lines (ustr ''ART'')))
        (find_title (extract_main_text_block (demo_lines (ustr ''ART''))))
      = drop 4 (extract_main_text_block (demo_lines (ustr ''ART'')))"
proof -
  let ?block = "extract_main_text_block (demo_lines (ustr ''ART''))"
  note T = title_and_body_heuristic [of ?block]
  have i: "find_unit_line (take 120 ?block) 0 = Some 2"
    by code_simp
  have f: "List.find (\<lambda>c. \<not> skipped_candidate c) (map strip (take 9 (drop (Suc 2) ?block)))
      = Some (ustr ''T1'')"
    by code_simp
  have t: "find_title ?block = Some (ustr ''T1'')"
    using T [THEN conjunct2, THEN conjunct2, THEN conjunct1, rule_format, OF i] f by simp
  have m: "ustr ''T1'' \<in> set ?block"
    using T [THEN conjunct2, THEN conjunct2, THEN conjunct2, THEN conjunct2, THEN conjunct2,
        THEN conjunct2, THEN conjunct1, rule_format, of "demo_lines (ustr ''ART'')" "ustr ''T1''"] t
    by blast
  have x: "list_index ?block (ustr ''T1'') = 3"
    by code_simp
  have "candidate_body ?block (find_title ?block) = drop (Suc (list_index ?block (ustr ''T1''))) ?block"
    using T [THEN conjunct2, THEN conjunct2, THEN conjunct2, THEN conjunct1, rule_format,
        of "ustr ''T1''"] t m
    by blast
  then have "candidate_body ?block (find_title ?block) = drop 4 ?block"
    unfolding x by simp
  with i t x show ?thesis
    by blast
qed


section \<open>Properties of the pagination discoverer\<close>

lemma probe_outcome_eq:
  "probe E b f p v log =
     ((case probe_outcome E b f (m, p, v, ob) of
         None \<Rightarrow> Inl (FetchError (set_query_param E b p v))
       | Some r \<Rightarrow> Inr r), log @ [set_query_param E b p v])"
  by (simp add: probe_def probe_outcome_def probe_request_def fetch_html_def Let_def
      split: option.splits)

lemma probe_page_params_first_success:
  "or_continue (probe_page_params E b f ps log) (\<lambda>p. (PageMode, p, 0, False))
     (first_success E b f n rest)
   = first_success E b f n (map (\<lambda>p. (PageMode, p, ustr ''2'', False)) ps @ rest) log"
proof (induction ps arbitrary: log)
  case Nil
  then show ?case by (simp add: or_continue_def)
next
  case (Cons p ps)
  note pr = probe_outcome_eq [of E b f p "ustr ''2''" log PageMode False]
  show ?case
  proof (cases "probe_outcome E b f (PageMode, p, ustr ''2'', False)")
    case None
    then show ?thesis
      by (simp add: pr or_continue_def probe_request_def)
  next
    case (Some r)
    then show ?thesis
      using Cons.IH [of "log @ [set_query_param E b p (ustr ''2'')]"]
      by (cases r) (simp_all add: pr or_continue_def probe_request_def scheme_of_def)
  qed
qed

lemma probe_offset_bases_first_success:
  "or_continue (probe_offset_bases E b f n p [False, True] log) (\<lambda>ob. (OffsetMode, p, n, ob))
     (first_success E b f n rest)
   = first_success E b f n
       ((OffsetMode, p, str_nat n, False) # (OffsetMode, p, str_nat (n + 1), True) # rest) log"
proof -
  note pr0 = probe_outcome_eq [of E b f p "str_nat n" log OffsetMode False]
  note pr1 = probe_outcome_eq [of E b f p "str_nat (n + 1)"
      "log @ [set_query_param E b p (str_nat n)]" OffsetMode True]
  show ?thesis
  proof (cases "probe_outcome E b f (OffsetMode, p, str_nat n, False)")
    case None
    then show ?thesis
      by (simp add: pr0 or_continue_def probe_request_def)
  next
    case (Some r)
    show ?thesis
    proof (cases r)
      case True
      with Some show ?thesis
        by (simp add: pr0 or_continue_def probe_request_def scheme_of_def)
    next
      case False
      show ?thesis
      proof (cases "probe_outcome E b f (OffsetMode, p, str_nat (n + 1), True)")
        case None
        with Some False show ?thesis
          using pr1 by (simp add: pr0 or_continue_def probe_request_def)
      next
        case (Some r')
        with \<open>probe_outcome E b f (OffsetMode, p, str_nat n, False) = Some r\<close> False
        show ?thesis
          using pr1 by (cases r') (simp_all add: pr0 or_continue_def probe_request_def scheme_of_def)
      qed
    qed
  qed
qed

lemma probe_offset_params_first_success:
  "or_continue (probe_offset_params E b f n ps log) (\<lambda>(p, ob). (OffsetMode, p, n, ob))
     (first_success E b f n rest)
   = first_success E b f n
       (concat (map (\<lambda>p. [(OffsetMode, p, str_nat n, False),
                           (OffsetMode, p, str_nat (n + 1), True)]) ps) @ rest) log"
proof (induction ps arbitrary: log)
  case Nil
  then show ?case by (simp add: or_continue_def)
next
  case (Cons p ps)
  let ?tail = "concat (map (\<lambda>p. [(OffsetMode, p, str_nat n, False),
                           (OffsetMode, p, str_nat (n + 1), True)]) ps) @ rest"
  have "or_continue (probe_offset_params E b f n (p # ps) log) (\<lambda>(p, ob). (OffsetMode, p, n, ob))
       (first_success E b f n rest)
     = or_continue (probe_offset_bases E b f n p [False, True] log) (\<lambda>ob. (OffsetMode, p, n, ob))
       (\<lambda>l. or_continue (probe_offset_params E b f n ps l) (\<lambda>(p, ob). (OffsetMode, p, n, ob))
              (first_success E b f n rest))"
  proof (cases "probe_offset_bases E b f n p [False, True] log")
    case (Pair r l)
    then show ?thesis
      by (cases r; cases "projr r")
        (simp_all add: or_continue_def del: probe_offset_bases.simps)
  qed
  also have "\<dots> = or_continue (probe_offset_bases E b f n p [False, True] log)
       (\<lambda>ob. (OffsetMode, p, n, ob)) (first_success E b f n ?tail)"
    by (simp only: Cons.IH)
  also have "\<dots> = first_success E b f n
       ((OffsetMode, p, str_nat n, False) # (OffsetMode, p, str_nat (n + 1), True) # ?tail) log"
    by (rule probe_offset_bases_first_success)
  finally show ?case
    by simp
qed

lemma discover_first_success:
  assumes "first \<noteq> []"
  shows "discover_pagination_mode E b first log =
     first_success E b (set (map url first)) (length first) (probe_candidates (length first)) log"
proof -
  let ?f = "set (map url first)" and ?n = "length first"
  have n: "max (Suc 0) ?n = ?n"
    using assms by (cases first) auto
  have "discover_pagination_mode E b first log
      = or_continue (probe_page_params E b ?f page_params log) (\<lambda>p. (PageMode, p, 0, False))
          (\<lambda>l. or_continue (probe_offset_params E b ?f ?n offset_params l)
                 (\<lambda>(p, ob). (OffsetMode, p, ?n, ob)) (first_success E b ?f ?n []))"
    using assms
    by (simp add: discover_pagination_mode_def n Let_def or_continue_def
        split: prod.splits sum.splits option.splits)
  also have "\<dots> = or_continue (probe_page_params E b ?f page_params log) (\<lambda>p. (PageMode, p, 0, False))
          (first_success E b ?f ?n
            (concat (map (\<lambda>p. [(OffsetMode, p, str_nat ?n, False),
                           (OffsetMode, p, str_nat (?n + 1), True)]) offset_params)))"
    by (simp add: probe_offset_params_first_success)
  also have "\<dots> = first_success E b ?f ?n (probe_candidates ?n) log"
    by (simp only: probe_page_params_first_success probe_candidates_def)
  finally show ?thesis .
qed

lemma first_success_at:
  assumes "k < length cs"
    and "\<forall>j < k. probe_outcome E b f (cs ! j) = Some False"
    and "probe_outcome E b f (cs ! k) = Some True"
  shows "first_success E b f n cs log =
     (Inr (scheme_of n (cs ! k)), log @ map (probe_request E b) (take (Suc k) cs))"
  using assms
proof (induction cs arbitrary: k log)
  case Nil
  then show ?case by simp
next
  case (Cons c cs)
  show ?case
  proof (cases k)
    case 0
    with Cons.prems show ?thesis by simp
  next
    case (Suc k')
    with Cons.prems have "probe_outcome E b f c = Some False" by auto
    moreover have "first_success E b f n cs (log @ [probe_request E b c]) =
       (Inr (scheme_of n (cs ! k')), (log @ [probe_request E b c]) @ map (probe_request E b) (take (Suc k') cs))"
      using Cons.prems Suc by (intro Cons.IH) auto
    ultimately show ?thesis using Suc by simp
  qed
qed







lemma list_all_take_nth:
  "list_all P (take k xs) \<Longrightarrow> k \<le> length xs \<Longrightarrow> \<forall>j < k. P (xs ! j)"
  by (simp add: list_all_length)

lemma probe_candidates_length: "length (probe_candidates n) = 14"
  by (simp add: probe_candidates_def page_params_def offset_params_def)

text \<open>
  Claim C3. The probes are made in one fixed order: the six page-index names with value
  \<open>"2"\<close>, then each of the four offset names with the page size and with the page size
  plus one. When the probes before the \<open>k\<close>-th all come back without success and the
  \<open>k\<close>-th succeeds, the discoverer returns the scheme of the \<open>k\<close>-th candidate
  (page mode with its parameter, or offset mode with its parameter, the page size as
  step and its one-based flag), and it has requested exactly the first \<open>k + 1\<close>
  candidates, in order. The result is a function of the site's answers.
\<close>

theorem discovery_first_match_wins:
  assumes "first_page_items \<noteq> []"
    and "k < length (probe_candidates (length first_page_items))"
    and "\<forall>j < k. probe_outcome E base_url (set (map url first_page_items))
            (probe_candidates (length first_page_items) ! j) = Some False"
    and "probe_outcome E base_url (set (map url first_page_items))
            (probe_candidates (length first_page_items) ! k) = Some True"
  shows "discover_pagination_mode E base_url first_page_items log =
      (Inr (scheme_of (length first_page_items) (probe_candidates (length first_page_items) ! k)),
       log @ map (probe_request E base_url)
               (take (Suc k) (probe_candidates (length first_page_items))))
    \<and> probe_candidates (length first_page_items) =
        [(PageMode, ustr ''page'', ustr ''2'', False),
         (PageMode, ustr ''pageIndex'', ustr ''2'', False),
         (PageMode, ustr ''pageNo'', ustr ''2'', False),
         (PageMode, ustr ''pageNum'', ustr ''2'', False),
         (PageMode, ustr ''p'', ustr ''2'', False),
         (PageMode, ustr ''pg'', ustr ''2'', False),
         (OffsetMode, ustr ''start'', str_nat (length first_page_items), False),
         (OffsetMode, ustr ''start'', str_nat (length first_page_items + 1), True),
         (OffsetMode, ustr ''offset'', str_nat (length first_page_items), False),
         (OffsetMode, ustr ''offset'', str_nat (length first_page_items + 1), True),
         (OffsetMode, ustr ''from'', str_nat (length first_page_items), False),
         (OffsetMode, ustr ''from'', str_nat (length first_page_items + 1), True),
         (OffsetMode, ustr ''begin'', str_nat (length first_page_items), False),
         (OffsetMode, ustr ''begin'', str_nat (length first_page_items + 1), True)]"
proof -
  have "discover_pagination_mode E base_url first_page_items log =
      (Inr (scheme_of (length first_page_items) (probe_candidates (length first_page_items) ! k)),
       log @ map (probe_request E base_url)
               (take (Suc k) (probe_candidates (length first_page_items))))"
    unfolding discover_first_success [OF assms(1)]
    by (rule first_success_at [OF assms(2) assms(3) assms(4)])
  moreover have "probe_candidates (length first_page_items) =
        [(PageMode, ustr ''page'', ustr ''2'', False),
         (PageMode, ustr ''pageIndex'', ustr ''2'', False),
         (PageMode, ustr ''pageNo'', ustr ''2'', False),
         (PageMode, ustr ''pageNum'', ustr ''2'', False),
         (PageMode, ustr ''p'', ustr ''2'', False),
         (PageMode, ustr ''pg'', ustr ''2'', False),
         (OffsetMode, ustr ''start'', str_nat (length first_page_items), False),
         (OffsetMode, ustr ''start'', str_nat (length first_page_items + 1), True),
         (OffsetMode, ustr ''offset'', str_nat (length first_page_items), False),
         (OffsetMode, ustr ''offset'', str_nat (length first_page_items + 1), True),
         (OffsetMode, ustr ''from'', str_nat (length first_page_items), False),
         (OffsetMode, ustr ''from'', str_nat (length first_page_items + 1), True),
         (OffsetMode, ustr ''begin'', str_nat (length first_page_items), False),
         (OffsetMode, ustr ''begin'', str_nat (length first_page_items + 1), True)]"
    by (simp add: probe_candidates_def page_params_def offset_params_def)
  ultimately show ?thesis ..
qed

theorem discovery_first_match_wins_witness:
  "discover_pagination_mode (demo_env demo_site_offset) demo_list
     (parse_list_page (demo_env demo_site_offset) (ustr ''P1'')) []
   = (Inr (OffsetMode, ustr ''start'', 2, False),
      [demo_list @ ustr ''?page=2'', demo_list @ ustr ''?pageIndex=2'',
       demo_list @ ustr ''?pageNo=2'', demo_list @ ustr ''?pageNum=2'',
       demo_list @ ustr ''?p=2'', demo_list @ ustr ''?pg=2'', demo_list @ ustr ''?start=2''])"
proof -
  let ?E = "demo_env demo_site_offset"
  let ?first = "parse_list_page ?E (ustr ''P1'')"
  have len: "length ?first = 2"
    by code_simp
  have ne: "?first \<noteq> []"
    using len by auto
  have k: "6 < length (probe_candidates (length ?first))"
    by (simp add: probe_candidates_length)
  have "list_all (\<lambda>c. probe_outcome ?E demo_list (set (map url ?first)) c = Some False)
      (take 6 (probe_candidates (length ?first)))"
    by code_simp
  then have before: "\<forall>j < 6. probe_outcome ?E demo_list (set (map url ?first))
      (probe_candidates (length ?first) ! j) = Some False"
    by (rule list_all_take_nth) (simp add: probe_candidates_length)
  have hit: "probe_outcome ?E demo_list (set (map url ?first))
      (probe_candidates (length ?first) ! 6) = Some True"
    by code_simp
  have sch: "scheme_of (length ?first) (probe_candidates (length ?first) ! 6)
      = (OffsetMode, ustr ''start'', 2, False)"
    by code_simp
  have reqs: "[] @ map (probe_request ?E demo_list) (take (Suc 6) (probe_candidates (length ?first)))
      = [demo_list @ ustr ''?page=2'', demo_list @ ustr ''?pageIndex=2'',
         demo_list @ ustr ''?pageNo=2'', demo_list @ ustr ''?pageNum=2'',
         demo_list @ ustr ''?p=2'', demo_list @ ustr ''?pg=2'', demo_list @ ustr ''?start=2'']"
    by code_simp
  show ?thesis
    using discovery_first_match_wins [OF ne k before hit, of "[]", THEN conjunct1]
    unfolding sch reqs .
qed





section \<open>Properties of the page sequence generator\<close>


lemma iter_list_pages_loop_Yield:
  assumes "iter_list_pages_loop E b M sch m log = (Yield n u items, st', log')"
  shows "n = Suc m \<and> u = page_url E b sch n \<and> st' = GenLoop sch n \<and> log' = log @ [u]
    \<and> items \<noteq> [] \<and> (\<exists>h. fetch E u = Some h \<and> parse_list_page E h = items)"
  using assms
  by (auto simp: iter_list_pages_loop_def fetch_html_def Let_def split: if_splits option.splits)






text \<open>
  Claim C2, as stated, fails on the code in page-index mode: the page yielded with index
  \<open>n\<close> is requested with the parameter set to \<open>n\<close>, not to \<open>n + 1\<close>. On the example
  site the discovered scheme is page mode with the parameter \<open>page\<close>, and the page
  yielded with index 1 is requested as \<open>page=1\<close>.
\<close>

theorem page_index_parameter_counterexample:
  "fst (discover_pagination_mode (demo_env demo_site) demo_list
          (parse_list_page (demo_env demo_site) (ustr ''P1'')) [demo_list])
     = Inr (PageMode, ustr ''page'', 0, False)
   \<and> map_option (\<lambda>(ys, e, l). map (\<lambda>(n, u, items). (n, u)) ys)
        (iter_list_pages_all 4 (demo_env demo_site) demo_list 2 GenStart [])
     = Some [(0, demo_list), (1, demo_list @ ustr ''?page=1''), (2, demo_list @ ustr ''?page=2'')]
   \<and> demo_list @ ustr ''?page=1''
     \<noteq> set_query_param (demo_env demo_site) demo_list (ustr ''page'') (str_nat (1 + 1))"
  by code_simp

text \<open>
  Claim C2, amended. Every page the generator yields with an index \<open>n \<ge> 1\<close> was
  requested, as the last request made, at the base URL with the parameter of the scheme
  in use (the scheme discovered after the first page, kept in the generator's state)
  set to: \<open>n\<close> in page mode; \<open>(n - 1) * step\<close>, plus one if the scheme is one-based, in
  offset mode.
\<close>

theorem page_urls_follow_scheme:
  assumes "iter_list_pages E base_url max_pages st log = (Yield n u items, st', log')"
    and "1 \<le> n"
  shows "\<exists>m param step one_based log0.
      st' = GenLoop (m, param, step, one_based) n
      \<and> (st = GenLoop (m, param, step, one_based) (n - 1) \<and> log0 = log
          \<or> (\<exists>items1. st = GenFirst items1 \<and> n = 1
                \<and> discover_pagination_mode E base_url items1 log
                    = (Inr (m, param, step, one_based), log0)))
      \<and> u = set_query_param E base_url param
              (str_nat (case m of PageMode \<Rightarrow> n
                        | OffsetMode \<Rightarrow> (n - 1) * step + (if one_based then 1 else 0)))
      \<and> log' = log0 @ [u]"
proof -
  have url: "page_url E base_url (m, param, step, one_based) n
      = set_query_param E base_url param
          (str_nat (case m of PageMode \<Rightarrow> n
                    | OffsetMode \<Rightarrow> (n - 1) * step + (if one_based then 1 else 0)))"
    for m param step one_based
    by (cases m) (simp_all add: page_url_def Let_def)
  show ?thesis
  proof (cases st)
    case GenStart
    with assms show ?thesis
      by (auto simp: fetch_html_def Let_def split: option.splits)
  next
    case (GenFirst items1)
    with assms obtain sch log0 where d: "discover_pagination_mode E base_url items1 log = (Inr sch, log0)"
      and g: "iter_list_pages_loop E base_url max_pages sch 0 log0 = (Yield n u items, st', log')"
      by (auto split: if_splits prod.splits sum.splits)
    obtain m param step one_based where sch: "sch = (m, param, step, one_based)"
      by (cases sch)
    from iter_list_pages_loop_Yield [OF g] d GenFirst show ?thesis
      unfolding sch url by auto
  next
    case (GenLoop sch k)
    obtain m param step one_based where sch: "sch = (m, param, step, one_based)"
      by (cases sch)
    from assms GenLoop have "iter_list_pages_loop E base_url max_pages sch k log = (Yield n u items, st', log')"
      by simp
    from iter_list_pages_loop_Yield [OF this] GenLoop show ?thesis
      unfolding sch url by auto
  next
    case GenDone
    with assms show ?thesis by simp
  qed
qed

theorem page_urls_follow_scheme_witness:
  "iter_list_pages (demo_env demo_site) demo_list 0 (GenLoop (PageMode, ustr ''page'', 0, False) 1) []
     = (Yield 2 (demo_list @ ustr ''?page=2'') (parse_list_page (demo_env demo_site) (ustr ''P2'')),
        GenLoop (PageMode, ustr ''page'', 0, False) 2, [demo_list @ ustr ''?page=2''])
   \<and> demo_list @ ustr ''?page=2''
     = set_query_param (demo_env demo_site) demo_list (ustr ''page'') (str_nat 2)"
proof -
  let ?E = "demo_env demo_site"
  have f: "fetch ?E (demo_list @ ustr ''?page=2'') = Some (ustr ''P2'')"
    by code_simp
  have p: "parse_list_page ?E (ustr ''P2'') \<noteq> []"
    by code_simp
  have q: "page_url ?E demo_list (PageMode, ustr ''page'', 0, False) (1 + 1)
      = demo_list @ ustr ''?page=2''"
    by code_simp
  have g: "iter_list_pages ?E demo_list 0 (GenLoop (PageMode, ustr ''page'', 0, False) 1) []
     = (Yield 2 (demo_list @ ustr ''?page=2'') (parse_list_page ?E (ustr ''P2'')),
        GenLoop (PageMode, ustr ''page'', 0, False) 2, [demo_list @ ustr ''?page=2''])"
    using f p q by (simp add: iter_list_pages_loop_def fetch_html_def Let_def)
  from page_urls_follow_scheme [OF g]
  obtain m param step one_based where
    "GenLoop (PageMode, ustr ''page'', 0, False) 2 = GenLoop (m, param, step, one_based) 2"
    and u: "demo_list @ ustr ''?page=2'' = set_query_param ?E demo_list param
        (str_nat (case m of PageMode \<Rightarrow> 2
                  | OffsetMode \<Rightarrow> (2 - 1) * step + (if one_based then 1 else 0)))"
    by auto
  then have "m = PageMode" and "param = ustr ''page''"
    by simp_all
  with u have "demo_list @ ustr ''?page=2'' = set_query_param ?E demo_list (ustr ''page'') (str_nat 2)"
    by simp
  with g show ?thesis
    by blast
qed





section \<open>Properties of the crawl controller\<close>

lemma process_items_stop:
  assumes "process_items E out_dir pre s = (False, s1)"
    and "files s1 (target_path out_dir (unit item) (date item) (title item)) \<noteq> None"
  shows "process_items E out_dir (pre @ item # post) s
     = (True, s1\<lparr>total_seen := total_seen s1 + 1\<rparr>)"
  using assms
proof (induction pre arbitrary: s)
  case Nil
  then show ?case by (simp add: Let_def)
next
  case (Cons a pre)
  then show ?case
    by (auto simp: Let_def split: if_splits)
qed

lemma length_two_list: "length xs = 2 \<Longrightarrow> xs = [xs ! 0] @ xs ! 1 # []"
  by (cases xs; cases "tl xs") auto

text \<open>
  Claim C1. At any point of a run (any state of the generator and of the world), when
  the generator yields a page and the loop over its records reaches a record whose
  target path, computed from the record's unit, date and title, has an entry in the
  storage, the run ends there: its result is the halt, and the final world is the world
  at the check with the record counted as seen. Nothing later is fetched (no article of
  the page, no further page) and nothing is written, whatever records and pages remain.
\<close>

theorem run_halts_at_existing_target:
  assumes "iter_list_pages E list_url max_pages g (fetch_log s) = (Yield n u (pre @ item # post), g', log')"
    and "process_items E out_dir pre (s\<lparr>fetch_log := log'\<rparr>) = (False, s1)"
    and "files s1 (target_path out_dir (unit item) (date item) (title item)) \<noteq> None"
  shows "main_loop (Suc k) E list_url out_dir max_pages g s
     = Some (Stopped, s1\<lparr>total_seen := total_seen s1 + 1\<rparr>)"
  using assms(1) process_items_stop [OF assms(2) assms(3), of post]
  by simp

theorem run_halts_at_existing_target_witness:
  "map_option (\<lambda>(out, s). (out, total_saved s, total_seen s, fetch_log s))
     (main_loop (Suc 0) (demo_env demo_site) demo_list (ustr ''data'') 0 GenStart
        \<lparr>fetch_log = [],
         files = [ustr ''data/U2_113-04-30_T2.md'' \<mapsto> ustr ''earlier''],
         total_saved = 0, total_seen = 0\<rparr>)
   = Some (Stopped, 1, 2, [demo_list, BASE_URL @ demo_href ''1''])"
proof -
  let ?E = "demo_env demo_site"
  let ?items = "parse_list_page ?E (ustr ''P1'')"
  let ?s0 = "\<lparr>fetch_log = [], files = [ustr ''data/U2_113-04-30_T2.md'' \<mapsto> ustr ''earlier''],
      total_saved = 0, total_seen = 0\<rparr>"
  let ?r = "process_items ?E (ustr ''data'') [?items ! 0] (?s0\<lparr>fetch_log := [demo_list]\<rparr>)"
  have len: "length ?items = 2"
    by code_simp
  have f: "fetch ?E demo_list = Some (ustr ''P1'')"
    by code_simp
  have g: "iter_list_pages ?E demo_list 0 GenStart (fetch_log ?s0)
      = (Yield 0 demo_list ([?items ! 0] @ ?items ! 1 # []), GenFirst ?items, [demo_list])"
    using f length_two_list [OF len] by (simp add: fetch_html_def Let_def)
  have "fst ?r = False"
    by code_simp
  then have p: "?r = (False, snd ?r)"
    by (simp add: prod_eq_iff)
  have x: "files (snd ?r) (target_path (ustr ''data'') (unit (?items ! 1)) (date (?items ! 1))
      (title (?items ! 1))) \<noteq> None"
    by code_simp
  have v: "(total_saved (snd ?r), total_seen (snd ?r) + 1, fetch_log (snd ?r))
      = (1, 2, [demo_list, BASE_URL @ demo_href ''1''])"
    by code_simp
  show ?thesis
    using run_halts_at_existing_target [OF g p x, of 0] v by simp
qed

text \<open>
  Claim C10. The map from (unit, date, title) to the target path is not injective:
  titles that differ in a forbidden character, in the amount of white space, or only
  after the 180th character of the file name give the same path. So the existence check
  can stop a run at a record whose own document was never written: with a storage that
  holds only the document of the title \<open>a:b\<close>, the run on a listing whose first record
  has the title \<open>a/b\<close> halts at that record, having fetched the listing only and saved
  nothing.
\<close>

theorem target_path_not_injective:
  "ustr ''a/b'' \<noteq> ustr ''a:b''
   \<and> target_path (ustr ''data'') (ustr ''U4'') (ustr ''113-04-28'') (ustr ''a/b'')
     = target_path (ustr ''data'') (ustr ''U4'') (ustr ''113-04-28'') (ustr ''a:b'')
   \<and> ustr ''a  b'' \<noteq> ustr ''a b''
   \<and> target_path (ustr ''data'') (ustr ''U4'') (ustr ''113-04-28'') (ustr ''a  b'')
     = target_path (ustr ''data'') (ustr ''U4'') (ustr ''113-04-28'') (ustr ''a b'')
   \<and> replicate 200 120 \<noteq> replicate 201 (120 :: int)
   \<and> target_path (ustr ''data'') (ustr ''U4'') (ustr ''113-04-28'') (replicate 200 120)
     = target_path (ustr ''data'') (ustr ''U4'') (ustr ''113-04-28'') (replicate 201 120)
   \<and> map (\<lambda>it. (unit it, date it, title it)) (parse_list_page (demo_env demo_site_slash) (ustr ''P3''))
     = [(ustr ''U4'', ustr ''113-04-28'', ustr ''a/b'')]
   \<and> map_option (\<lambda>(out, s). (out, total_saved s, total_seen s, fetch_log s))
       (main 3 (demo_env demo_site_slash) demo_list (ustr ''data'') 0
          [target_path (ustr ''data'') (ustr ''U4'') (ustr ''113-04-28'') (ustr ''a:b'')
             \<mapsto> ustr ''document of a:b''])
     = Some (Stopped, 0, 1, [demo_list])"
  by code_simp


end
